theory Spec2Isabelle
  imports Main "HOL-Library.Word"
begin

unbundle bit_operations_syntax

section \<open>The sender side of Homa message transmission\<close>

text \<open>
  A shallow embedding of the functions of the outgoing-message file of the Homa kernel
  module: message initialisation, the data sender, the retransmitter, the link-idle clock
  and the throttled list.

  Conventions of the embedding.
  \<^item> A C \<^verbatim>\<open>int\<close> is an \<^typ>\<open>int\<close>: every message the code builds has a length of at most
    \<^verbatim>\<open>HOMA_MAX_MESSAGE_LENGTH\<close>, so offsets and byte counts stay far inside the range of
    the type. A \<^verbatim>\<open>size_t\<close> is a \<^typ>\<open>nat\<close> and its conversion to \<^verbatim>\<open>int\<close> is written out.
    The tick counter (\<^verbatim>\<open>__u64\<close>, \<^verbatim>\<open>atomic_long_t\<close>) is a \<^typ>\<open>64 word\<close>, whose arithmetic wraps.
  \<^item> Header fields hold host-order values (\<^verbatim>\<open>ntohl\<close> undoes \<^verbatim>\<open>htonl\<close>).
  \<^item> The packets of a message are a list, in the order of the links
    (\<^verbatim>\<open>homa_next_skb\<close>). A pointer into the list is a position: position \<open>i\<close> is the
    \<open>i\<close>-th buffer, and the position just past the last buffer is the \<^verbatim>\<open>NULL\<close> that ends
    the list.
  \<^item> RPCs live in a store indexed by their address; the throttled list is the list of the
    addresses linked on it, and an RPC's \<^verbatim>\<open>throttled_links\<close> is non-empty exactly when its
    address is on that list.
  \<^item> One thread runs; what the kernel and the rest of the module decide (allocation, the
    copy from user space, the clock, the IP layer, the peer's priority table, the
    constants of \<^verbatim>\<open>homa_impl.h\<close>) is a parameter of the model, the record \<open>env\<close>.
\<close>

subsection \<open>Data model\<close>

datatype homa_packet_type = DATA | GRANT

record data_header =
  h_sport :: "16 word"
  h_dport :: "16 word"
  h_id :: "64 word"
  h_type :: homa_packet_type
  h_message_length :: int
  h_offset :: int
  h_unscheduled :: int
  h_cutoff_version :: "16 word"
  h_retransmit :: nat

text \<open>
  A packet buffer. \<open>data\<close>, \<open>tail\<close> and \<open>transport_header\<close> are offsets from the start of
  the buffer; \<open>users\<close> is the reference count; \<open>vlan_tci\<close> is \<open>None\<close> after a read past
  the end of the priority table, which C leaves undefined.
\<close>

record sk_buff =
  hdr :: data_header
  data :: int
  tail :: int
  transport_header :: int
  vlan_proto :: "16 word"
  vlan_tci :: "16 word option"
  users :: nat
  dst :: "nat option"

record homa_message_out =
  length_out :: int
  packets :: "sk_buff list"
  next_packet :: nat
  next_offset :: int
  unscheduled :: int
  granted :: int
  sched_priority :: int

record homa_peer =
  cutoff_version :: "16 word"
  peer_dst :: nat
  unsched_cutoffs :: "int list"

record homa_rpc =
  msgout :: homa_message_out
  peer :: homa_peer

record homa =
  link_idle_time :: "64 word"
  cycles_per_kbyte :: int
  max_nic_queue_cycles :: int
  throttle_min_bytes :: int
  rtt_bytes :: int
  flags :: "32 word"
  throttled_rpcs :: "nat list"

record metrics =
  packets_sent_data :: nat
  data_xmit_errors :: nat
  resent_packets :: nat

text \<open>
  The state the functions work on: the store of RPCs, the one \<^verbatim>\<open>struct homa\<close>, the
  buffers handed to \<^verbatim>\<open>ip_queue_xmit\<close> so far (oldest first, each as it was when handed
  over), the number of \<^verbatim>\<open>get_cycles\<close> calls so far, and the metrics.
\<close>

record world =
  rpcs :: "nat \<Rightarrow> homa_rpc"
  homa :: homa
  xmit_log :: "sk_buff list"
  cycle_reads :: nat
  metrics :: metrics

text \<open>
  What the model takes from outside the file: the constants of \<^verbatim>\<open>homa_impl.h\<close>, whether
  the \<open>k\<close>-th \<^verbatim>\<open>alloc_skb\<close> of an initialisation succeeds, the result of the copy into the
  \<open>k\<close>-th buffer, the \<open>n\<close>-th reading of the cycle counter, what the \<open>n\<close>-th call of
  \<^verbatim>\<open>ip_queue_xmit\<close> returns and does to its buffer, and the peer's priority for
  unscheduled packets of a message of a given length.
\<close>

record env =
  HOMA_MAX_MESSAGE_LENGTH :: nat
  HOMA_SKB_RESERVE :: int
  sizeof_data_header :: int
  HOMA_MAX_IPV4_HEADER :: int
  HOMA_VLAN_HEADER :: int
  HOMA_ETH_OVERHEAD :: int
  HOMA_FLAG_DONT_THROTTLE :: "32 word"
  alloc_skb_ok :: "nat \<Rightarrow> bool"
  skb_add_data_nocache :: "nat \<Rightarrow> int \<Rightarrow> int"
  get_cycles :: "nat \<Rightarrow> 64 word"
  ip_queue_xmit :: "nat \<Rightarrow> sk_buff \<Rightarrow> int \<times> sk_buff"
  homa_unsched_priority :: "homa_peer \<Rightarrow> int \<Rightarrow> int"

text \<open>
  Modelled from the spec: \<^verbatim>\<open>HOMA_MAX_DATA_PER_PACKET\<close> is a macro of \<^verbatim>\<open>homa_impl.h\<close>, which
  is not among the sources; the spec's scenarios and the unit tests fix it at 1400.
\<close>

definition HOMA_MAX_DATA_PER_PACKET :: int where
  "HOMA_MAX_DATA_PER_PACKET = 1400"

text \<open>Linux error numbers and VLAN constants.\<close>

definition ENOMEM :: int where "ENOMEM = 12"
definition EFAULT :: int where "EFAULT = 14"
definition EINVAL :: int where "EINVAL = 22"

definition VLAN_PRIO_SHIFT :: nat where "VLAN_PRIO_SHIFT = 13"
definition VLAN_TAG_PRESENT :: "16 word" where "VLAN_TAG_PRESENT = 0x1000"

subsection \<open>Buffer primitives of the kernel\<close>

definition alloc_skb :: sk_buff where
  "alloc_skb =
     \<lparr>hdr = \<lparr>h_sport = 0, h_dport = 0, h_id = 0, h_type = DATA, h_message_length = 0,
             h_offset = 0, h_unscheduled = 0, h_cutoff_version = 0, h_retransmit = 0\<rparr>,
      data = 0, tail = 0, transport_header = 0, vlan_proto = 0, vlan_tci = Some 0,
      users = 1, dst = None\<rparr>"

definition skb_reserve :: "sk_buff \<Rightarrow> int \<Rightarrow> sk_buff" where
  "skb_reserve skb len = skb\<lparr>data := data skb + len, tail := tail skb + len\<rparr>"

definition skb_reset_transport_header :: "sk_buff \<Rightarrow> sk_buff" where
  "skb_reset_transport_header skb = skb\<lparr>transport_header := data skb\<rparr>"

definition skb_put :: "sk_buff \<Rightarrow> int \<Rightarrow> sk_buff" where
  "skb_put skb len = skb\<lparr>tail := tail skb + len\<rparr>"

definition skb_transport_offset :: "sk_buff \<Rightarrow> int" where
  "skb_transport_offset skb = transport_header skb - data skb"

definition skb_pull :: "sk_buff \<Rightarrow> int \<Rightarrow> sk_buff" where
  "skb_pull skb len = skb\<lparr>data := data skb + len\<rparr>"

definition skb_get :: "sk_buff \<Rightarrow> sk_buff" where
  "skb_get skb = skb\<lparr>users := users skb + 1\<rparr>"

definition kfree_skb :: "sk_buff \<Rightarrow> sk_buff" where
  "kfree_skb skb = skb\<lparr>users := users skb - 1\<rparr>"

definition skb_shared :: "sk_buff \<Rightarrow> bool" where
  "skb_shared skb = (users skb \<noteq> 1)"

text \<open>
  The payload bytes of a data packet: what lies between the data header and the tail.
\<close>

definition skb_payload :: "env \<Rightarrow> sk_buff \<Rightarrow> int" where
  "skb_payload E skb = tail skb - transport_header skb - sizeof_data_header E"

subsection \<open>\<^verbatim>\<open>set_priority\<close>\<close>

definition tci :: "16 word list" where
  "tci = [push_bit VLAN_PRIO_SHIFT 1 OR VLAN_TAG_PRESENT,
          push_bit VLAN_PRIO_SHIFT 0 OR VLAN_TAG_PRESENT,
          push_bit VLAN_PRIO_SHIFT 2 OR VLAN_TAG_PRESENT,
          push_bit VLAN_PRIO_SHIFT 3 OR VLAN_TAG_PRESENT,
          push_bit VLAN_PRIO_SHIFT 4 OR VLAN_TAG_PRESENT,
          push_bit VLAN_PRIO_SHIFT 5 OR VLAN_TAG_PRESENT,
          push_bit VLAN_PRIO_SHIFT 6 OR VLAN_TAG_PRESENT,
          push_bit VLAN_PRIO_SHIFT 7 OR VLAN_TAG_PRESENT]"

definition tci_entry :: "int \<Rightarrow> 16 word option" where
  "tci_entry priority =
     (if 0 \<le> priority \<and> priority < 8 then Some (tci ! nat priority) else None)"

definition set_priority :: "sk_buff \<Rightarrow> int \<Rightarrow> sk_buff" where
  "set_priority skb priority = skb\<lparr>vlan_proto := 0x8100, vlan_tci := tci_entry priority\<rparr>"

subsection \<open>\<^verbatim>\<open>homa_message_out_init\<close>, \<^verbatim>\<open>homa_message_out_reset\<close>, \<^verbatim>\<open>homa_message_out_destroy\<close>\<close>

text \<open>The conversion of a \<^verbatim>\<open>size_t\<close> to \<^verbatim>\<open>int\<close>: the low 32 bits, read as two's complement.\<close>

definition int_of_size_t :: "nat \<Rightarrow> int" where
  "int_of_size_t len =
     (let r = int len mod 2 ^ 32 in if r < 2 ^ 31 then r else r - 2 ^ 32)"

definition homa_message_out_destroy :: "homa_message_out \<Rightarrow> homa_message_out" where
  "homa_message_out_destroy m =
     (if length_out m < 0 then m else m\<lparr>packets := []\<rparr>)"

definition homa_message_out_reset :: "homa_message_out \<Rightarrow> homa_message_out" where
  "homa_message_out_reset m =
     (let m = m\<lparr>next_packet := 0, next_offset := 0, granted := unscheduled m\<rparr>
      in if granted m > length_out m
         then m\<lparr>granted := length_out m\<rparr> else m)"

text \<open>
  The loop of \<^verbatim>\<open>homa_message_out_init\<close> that forms the packet buffers. The result is the
  error code (0 when every buffer was formed) and the message with the buffers linked so
  far; \<open>length (packets m)\<close> buffers have been allocated before an iteration.
\<close>

function init_packets ::
  "env \<Rightarrow> homa_peer \<Rightarrow> 16 word \<Rightarrow> 16 word \<Rightarrow> 64 word \<Rightarrow> homa_message_out \<Rightarrow> int
     \<Rightarrow> int \<times> homa_message_out" where
  "init_packets E dest dport sport rid m bytes_left =
     (if bytes_left > 0 then
        (let cur_size = (if HOMA_MAX_DATA_PER_PACKET > bytes_left then bytes_left
                         else HOMA_MAX_DATA_PER_PACKET);
             k = length (packets m)
         in if \<not> alloc_skb_ok E k then (- ENOMEM, m)
            else
              (let skb = skb_put (skb_reset_transport_header
                           (skb_reserve alloc_skb (HOMA_SKB_RESERVE E))) (sizeof_data_header E);
                   skb = skb\<lparr>hdr :=
                           \<lparr>h_sport = sport, h_dport = dport, h_id = rid, h_type = DATA,
                            h_message_length = length_out m,
                            h_offset = length_out m - bytes_left,
                            h_unscheduled = unscheduled m,
                            h_cutoff_version = cutoff_version dest,
                            h_retransmit = 0\<rparr>\<rparr>;
                   err = skb_add_data_nocache E k cur_size
               in if err \<noteq> 0 then (err, m)
                  else init_packets E dest dport sport rid
                         (m\<lparr>packets := packets m @ [skb_put skb cur_size]\<rparr>)
                         (bytes_left - HOMA_MAX_DATA_PER_PACKET)))
      else (0, m))"
  by pat_completeness auto
termination
  by (relation "measure (\<lambda>(E, dest, dport, sport, rid, m, bytes_left). nat bytes_left)")
     (auto simp: HOMA_MAX_DATA_PER_PACKET_def)

declare init_packets.simps [simp del]

definition homa_message_out_init ::
  "env \<Rightarrow> homa_message_out \<Rightarrow> homa \<Rightarrow> nat \<Rightarrow> homa_peer \<Rightarrow> 16 word \<Rightarrow> 16 word \<Rightarrow> 64 word
     \<Rightarrow> int \<times> homa_message_out" where
  "homa_message_out_init E m h len dest dport sport rid =
     (let m = m\<lparr>length_out := int_of_size_t len, packets := [], next_packet := 0,
                          next_offset := 0\<rparr>;
          m = m\<lparr>unscheduled := rtt_bytes h\<rparr>;
          m = m\<lparr>granted := unscheduled m\<rparr>;
          m = (if granted m > length_out m
                    then m\<lparr>granted := length_out m\<rparr> else m);
          m = m\<lparr>sched_priority := 0\<rparr>
      in if len > HOMA_MAX_MESSAGE_LENGTH E then (- EINVAL, homa_message_out_destroy m)
         else
           (case init_packets E dest dport sport rid m (int_of_size_t len) of
              (err, m') \<Rightarrow>
                if err = 0 then (0, m'\<lparr>next_packet := 0\<rparr>)
                else (err, homa_message_out_destroy m')))"

subsection \<open>\<^verbatim>\<open>homa_update_idle_time\<close>\<close>

text \<open>Division of C: the quotient is truncated towards zero.\<close>

definition c_div :: "int \<Rightarrow> int \<Rightarrow> int" where
  "c_div a b = (if (a < 0) = (b < 0) then \<bar>a\<bar> div \<bar>b\<bar> else - (\<bar>a\<bar> div \<bar>b\<bar>))"

text \<open>
  The value that an \<^verbatim>\<open>int\<close> keeps of a result: the low 32 bits, read as two's complement
  (the kernel is compiled so that signed arithmetic wraps).
\<close>

definition c_int :: "int \<Rightarrow> int" where
  "c_int x = (let r = x mod 2 ^ 32 in if r < 2 ^ 31 then r else r - 2 ^ 32)"

text \<open>
  With one thread running, the compare-and-swap finds the value that was just read, so
  the retry loop of the source runs once. \<open>bytes\<close> and \<open>cycles_for_packet\<close> are \<^verbatim>\<open>int\<close>s, and so
  are the sum and the product that they are assigned. The sum \<open>clock + cycles_for_packet\<close>
  is a sum of \<^verbatim>\<open>__u64\<close>: the \<^verbatim>\<open>int\<close> is converted and the addition wraps.
\<close>

definition homa_update_idle_time :: "env \<Rightarrow> world \<Rightarrow> int \<Rightarrow> world" where
  "homa_update_idle_time E W bytes =
     (let bytes = c_int (bytes + (HOMA_MAX_IPV4_HEADER E + HOMA_VLAN_HEADER E
                                   + HOMA_ETH_OVERHEAD E));
          cycles_for_packet = c_div (c_int (bytes * cycles_per_kbyte (homa W))) 1000;
          clock = get_cycles E (cycle_reads W);
          old_idle = link_idle_time (homa W);
          new_idle = (if old_idle < clock then clock + word_of_int cycles_for_packet
                      else old_idle + word_of_int cycles_for_packet)
      in W\<lparr>homa := (homa W)\<lparr>link_idle_time := new_idle\<rparr>,
            cycle_reads := Suc (cycle_reads W)\<rparr>)"

subsection \<open>\<^verbatim>\<open>homa_add_to_throttled\<close>\<close>

text \<open>
  The scan of the throttled list: the RPC is linked before the first candidate that has
  more bytes left than it has, or at the tail.
\<close>

fun throttled_insert :: "world \<Rightarrow> nat \<Rightarrow> nat list \<Rightarrow> nat list" where
  "throttled_insert W rpc [] = [rpc]"
| "throttled_insert W rpc (candidate # rest) =
     (if length_out (msgout (rpcs W candidate)) - next_offset (msgout (rpcs W candidate))
           > length_out (msgout (rpcs W rpc)) - next_offset (msgout (rpcs W rpc))
      then rpc # candidate # rest
      else candidate # throttled_insert W rpc rest)"

definition homa_add_to_throttled :: "world \<Rightarrow> nat \<Rightarrow> world" where
  "homa_add_to_throttled W rpc =
     (if rpc \<in> set (throttled_rpcs (homa W)) then W
      else W\<lparr>homa := (homa W)\<lparr>throttled_rpcs :=
                 throttled_insert W rpc (throttled_rpcs (homa W))\<rparr>\<rparr>)"

subsection \<open>\<^verbatim>\<open>__homa_xmit_data\<close>\<close>

text \<open>
  The transmission steps common to \<^verbatim>\<open>homa_xmit_data\<close> and \<^verbatim>\<open>homa_resend_data\<close>, for the buffer
  \<open>skb\<close> of the RPC at address \<open>r\<close>. The result is the buffer as the call leaves it, and the
  new state.
\<close>

definition homa_xmit_data_sub :: "env \<Rightarrow> world \<Rightarrow> sk_buff \<Rightarrow> nat \<Rightarrow> sk_buff \<times> world" where
  "homa_xmit_data_sub E W skb r =
     (let skb = skb\<lparr>hdr := (hdr skb)\<lparr>h_cutoff_version := cutoff_version (peer (rpcs W r))\<rparr>\<rparr>;
          skb = skb_get skb;
          skb = (if dst skb = None then skb\<lparr>dst := Some (peer_dst (peer (rpcs W r)))\<rparr>
                 else skb);
          skb = (if skb_transport_offset skb > 0 then skb_pull skb (skb_transport_offset skb)
                 else skb);
          (err, skb') = ip_queue_xmit E (length (xmit_log W)) skb;
          W = W\<lparr>xmit_log := xmit_log W @ [skb]\<rparr>;
          W = (if err \<noteq> 0
               then W\<lparr>metrics := (metrics W)\<lparr>data_xmit_errors :=
                         Suc (data_xmit_errors (metrics W))\<rparr>\<rparr>
               else W);
          skb' = (if err \<noteq> 0 \<and> users skb' > 1 then kfree_skb skb' else skb');
          W = homa_update_idle_time E W (tail skb' - transport_header skb');
          W = W\<lparr>metrics := (metrics W)\<lparr>packets_sent_data :=
                    Suc (packets_sent_data (metrics W))\<rparr>\<rparr>
      in (skb', W))"

subsection \<open>\<^verbatim>\<open>homa_xmit_data\<close>\<close>

text \<open>
  The throttle check at the head of the loop body. \<^verbatim>\<open>get_cycles\<close> is called only when the
  first operand of \<^verbatim>\<open>&&\<close> holds; \<open>xmit_clock_read\<close> is the state after the check.
\<close>

definition xmit_throttle_check :: "env \<Rightarrow> world \<Rightarrow> nat \<Rightarrow> bool" where
  "xmit_throttle_check E W r =
     (length_out (msgout (rpcs W r)) - next_offset (msgout (rpcs W r))
         > throttle_min_bytes (homa W)
      \<and> get_cycles E (cycle_reads W) + word_of_int (max_nic_queue_cycles (homa W))
         < link_idle_time (homa W)
      \<and> flags (homa W) AND HOMA_FLAG_DONT_THROTTLE E = 0)"

definition xmit_clock_read :: "world \<Rightarrow> nat \<Rightarrow> world" where
  "xmit_clock_read W r =
     (if length_out (msgout (rpcs W r)) - next_offset (msgout (rpcs W r))
           > throttle_min_bytes (homa W)
      then W\<lparr>cycle_reads := Suc (cycle_reads W)\<rparr> else W)"

text \<open>
  The rest of the loop body, run when the loop condition holds and the throttle check
  fails: the packet at \<open>next_packet\<close> is passed over, and sent unless its buffer is shared.
\<close>

definition xmit_data_packet :: "env \<Rightarrow> world \<Rightarrow> nat \<Rightarrow> world" where
  "xmit_data_packet E W r =
     (let rpc = rpcs W r;
          m = msgout rpc;
          i = next_packet m;
          skb = packets m ! i;
          m = m\<lparr>next_packet := Suc i\<rparr>;
          priority = (if next_offset m < unscheduled m
                      then homa_unsched_priority E (peer rpc) (length_out m)
                      else sched_priority m);
          m = m\<lparr>next_offset := next_offset m + HOMA_MAX_DATA_PER_PACKET\<rparr>;
          W = W\<lparr>rpcs := (rpcs W)(r := rpc\<lparr>msgout := m\<rparr>)\<rparr>
      in if skb_shared skb then W
         else
           (let skb = set_priority skb priority;
                skb = skb\<lparr>hdr := (hdr skb)\<lparr>h_retransmit := 0\<rparr>\<rparr>;
                (skb', W) = homa_xmit_data_sub E W skb r;
                rpc = rpcs W r
            in W\<lparr>rpcs := (rpcs W)(r := rpc\<lparr>msgout :=
                   (msgout rpc)\<lparr>packets := (packets (msgout rpc))[i := skb']\<rparr>\<rparr>)\<rparr>))"

function homa_xmit_data :: "env \<Rightarrow> world \<Rightarrow> nat \<Rightarrow> world" where
  "homa_xmit_data E W r =
     (if next_offset (msgout (rpcs W r)) < granted (msgout (rpcs W r))
         \<and> next_packet (msgout (rpcs W r)) < length (packets (msgout (rpcs W r)))
      then
        (if xmit_throttle_check E W r then homa_add_to_throttled (xmit_clock_read W r) r
         else homa_xmit_data E (xmit_data_packet E (xmit_clock_read W r) r) r)
      else W)"
  by pat_completeness auto
termination
proof (relation "measure (\<lambda>(E, W, r). length (packets (msgout (rpcs W r)))
                                         - next_packet (msgout (rpcs W r)))")
  show "wf (measure (\<lambda>(E, W, r). length (packets (msgout (rpcs W r)))
                                   - next_packet (msgout (rpcs W r))))"
    by simp
next
  fix E :: env and W :: world and r :: nat
  assume c: "next_offset (msgout (rpcs W r)) < granted (msgout (rpcs W r))
             \<and> next_packet (msgout (rpcs W r)) < length (packets (msgout (rpcs W r)))"
  let ?W = "xmit_clock_read W r"
  have a: "rpcs ?W = rpcs W"
    by (simp add: xmit_clock_read_def)
  have b: "\<And>V skb. rpcs (snd (homa_xmit_data_sub E V skb r)) = rpcs V"
    by (simp add: homa_xmit_data_sub_def homa_update_idle_time_def Let_def case_prod_beta)
  have "length (packets (msgout (rpcs (xmit_data_packet E ?W r) r)))
          = length (packets (msgout (rpcs W r)))
        \<and> next_packet (msgout (rpcs (xmit_data_packet E ?W r) r))
          = Suc (next_packet (msgout (rpcs W r)))"
    by (simp add: xmit_data_packet_def Let_def case_prod_beta a b)
  with c show "((E, xmit_data_packet E ?W r, r), (E, W, r))
        \<in> measure (\<lambda>(E, W, r). length (packets (msgout (rpcs W r)))
                                  - next_packet (msgout (rpcs W r)))"
    by (auto intro: diff_less_mono2)
qed

declare homa_xmit_data.simps [simp del]

subsection \<open>\<^verbatim>\<open>homa_resend_data\<close>\<close>

text \<open>
  The walk over the packet list, from the buffer at the head of \<open>skbs\<close>: the result is the
  buffers as the walk leaves them, and the new state. \<^verbatim>\<open>continue\<close> goes on with the rest of
  the list and \<^verbatim>\<open>break\<close> leaves it as it is.
\<close>

fun resend_packets ::
  "env \<Rightarrow> nat \<Rightarrow> int \<Rightarrow> int \<Rightarrow> int \<Rightarrow> sk_buff list \<Rightarrow> world \<Rightarrow> sk_buff list \<times> world" where
  "resend_packets E r start end priority [] W = ([], W)"
| "resend_packets E r start end priority (skb # rest) W =
     (let offset = h_offset (hdr skb)
      in if offset + HOMA_MAX_DATA_PER_PACKET \<le> start
         then (case resend_packets E r start end priority rest W of
                 (rest', W') \<Rightarrow> (skb # rest', W'))
         else if offset \<ge> end then (skb # rest, W)
         else if skb_shared skb
         then (case resend_packets E r start end priority rest W of
                 (rest', W') \<Rightarrow> (skb # rest', W'))
         else
           (let skb = skb\<lparr>hdr := (hdr skb)\<lparr>h_retransmit := 1\<rparr>\<rparr>;
                skb = set_priority skb priority;
                (skb', W) = homa_xmit_data_sub E W skb r;
                W = W\<lparr>metrics := (metrics W)\<lparr>resent_packets :=
                          Suc (resent_packets (metrics W))\<rparr>\<rparr>
            in case resend_packets E r start end priority rest W of
                 (rest', W') \<Rightarrow> (skb' # rest', W')))"

definition homa_resend_data :: "env \<Rightarrow> world \<Rightarrow> nat \<Rightarrow> int \<Rightarrow> int \<Rightarrow> int \<Rightarrow> world" where
  "homa_resend_data E W r start end priority =
     (case resend_packets E r start end priority (packets (msgout (rpcs W r))) W of
        (skbs, W') \<Rightarrow>
          W'\<lparr>rpcs := (rpcs W')(r := (rpcs W' r)\<lparr>msgout :=
                 (msgout (rpcs W' r))\<lparr>packets := skbs\<rparr>\<rparr>)\<rparr>)"

subsection \<open>An example environment\<close>

text \<open>
  The setting of the unit tests: a data header of 28 bytes and 104 bytes of IP, VLAN and
  Ethernet overhead (a packet of 1400 bytes has length 1428, and
  \<^verbatim>\<open>homa_update_idle_time\<close> charges 1104 cycles for 1000 bytes at 1000 cycles per
  kilobyte), every allocation and copy succeeds, the clock stands at 10000, and
  \<^verbatim>\<open>ip_queue_xmit\<close> succeeds and drops its reference to the buffer at once. The peer's
  cutoffs give priority 6 to unscheduled packets.
\<close>

definition test_env :: env where
  "test_env =
     \<lparr>HOMA_MAX_MESSAGE_LENGTH = 1000000, HOMA_SKB_RESERVE = 104, sizeof_data_header = 28,
      HOMA_MAX_IPV4_HEADER = 60, HOMA_VLAN_HEADER = 20, HOMA_ETH_OVERHEAD = 24,
      HOMA_FLAG_DONT_THROTTLE = 2,
      alloc_skb_ok = (\<lambda>k. True), skb_add_data_nocache = (\<lambda>k n. 0),
      get_cycles = (\<lambda>n. 10000), ip_queue_xmit = (\<lambda>n skb. (0, kfree_skb skb)),
      homa_unsched_priority = (\<lambda>p len. 6)\<rparr>"

definition test_peer :: homa_peer where
  "test_peer = \<lparr>cutoff_version = 0, peer_dst = 0, unsched_cutoffs = []\<rparr>"

definition test_homa :: homa where
  "test_homa =
     \<lparr>link_idle_time = 10000, cycles_per_kbyte = 1000, max_nic_queue_cycles = 0,
      throttle_min_bytes = 200, rtt_bytes = 10000, flags = 2, throttled_rpcs = []\<rparr>"

definition empty_msgout :: homa_message_out where
  "empty_msgout =
     \<lparr>length_out = 0, packets = [], next_packet = 0, next_offset = 0, unscheduled = 0,
      granted = 0, sched_priority = 0\<rparr>"

text \<open>A client RPC with a message of \<open>len\<close> bytes, as \<^verbatim>\<open>homa_message_out_init\<close> leaves it.\<close>

definition test_rpc :: "nat \<Rightarrow> homa_rpc" where
  "test_rpc len =
     \<lparr>msgout = snd (homa_message_out_init test_env empty_msgout test_homa len test_peer
                      99 40000 1),
      peer = test_peer\<rparr>"

text \<open>The state with the RPCs \<open>rs\<close> at the addresses \<open>1, 2, \<dots>\<close> and \<^verbatim>\<open>struct homa\<close> \<open>h\<close>.\<close>

definition test_world :: "homa \<Rightarrow> homa_rpc list \<Rightarrow> world" where
  "test_world h rs =
     \<lparr>rpcs = (\<lambda>a. if 1 \<le> a \<and> a \<le> length rs then rs ! (a - 1) else test_rpc 0),
      homa = h, xmit_log = [], cycle_reads = 0,
      metrics = \<lparr>packets_sent_data = 0, data_xmit_errors = 0, resent_packets = 0\<rparr>\<rparr>"

text \<open>
  The buffer that \<^verbatim>\<open>homa_message_out_init\<close> forms in this environment for \<open>n\<close> bytes at offset
  \<open>off\<close> of a message of \<open>len\<close> bytes.
\<close>

definition test_packet :: "int \<Rightarrow> int \<Rightarrow> int \<Rightarrow> sk_buff" where
  "test_packet len off n =
     \<lparr>hdr = \<lparr>h_sport = 40000, h_dport = 99, h_id = 1, h_type = DATA, h_message_length = len,
             h_offset = off, h_unscheduled = 10000, h_cutoff_version = 0, h_retransmit = 0\<rparr>,
      data = 104, tail = 132 + n, transport_header = 104, vlan_proto = 0,
      vlan_tci = Some 0, users = 1, dst = None\<rparr>"

text \<open>The bytes of an RPC's message that are still to be sent, the key of the throttled list.\<close>

definition bytes_remaining :: "world \<Rightarrow> nat \<Rightarrow> int" where
  "bytes_remaining W rpc =
     length_out (msgout (rpcs W rpc)) - next_offset (msgout (rpcs W rpc))"

text \<open>
  The five RPCs of the unit test of \<^verbatim>\<open>homa_add_to_throttled\<close>, with 10000, 5000, 15000, 12000
  and 10000 bytes, and an empty throttled list.
\<close>

definition srpt_world :: world where
  "srpt_world = test_world test_homa
     [test_rpc 10000, test_rpc 5000, test_rpc 15000, test_rpc 12000, test_rpc 10000]"


text \<open>
  The unsent packets of a message lie where the send pointer expects them: the packet at
  \<open>next_packet\<close> has header offset \<open>next_offset\<close>, and each later one lies
  \<^verbatim>\<open>HOMA_MAX_DATA_PER_PACKET\<close> further. Initialisation establishes this and the data sender
  keeps it.
\<close>

definition unsent_aligned :: "homa_message_out \<Rightarrow> bool" where
  "unsent_aligned m =
     (\<forall>i \<in> {next_packet m ..< length (packets m)}.
        h_offset (hdr (packets m ! i))
          = next_offset m + (int i - int (next_packet m)) * HOMA_MAX_DATA_PER_PACKET)"

text \<open>The half-open intervals \<open>[a, b)\<close> and \<open>[c, d)\<close> have a point in common.\<close>

definition intervals_intersect :: "int \<Rightarrow> int \<Rightarrow> int \<Rightarrow> int \<Rightarrow> bool" where
  "intervals_intersect a b c d = (max a c < min b d)"

text \<open>
  The worlds of the unit tests of \<^verbatim>\<open>homa_xmit_data\<close> and \<^verbatim>\<open>homa_resend_data\<close>: a message of 6000
  bytes with 2000 unscheduled bytes, 5000 granted bytes and scheduled priority 2; a
  message of \<open>len\<close> bytes with throttling enabled, the link busy until 11000 and a NIC
  queue limit of 3000 cycles; that world with 6000 bytes after two packets have been
  passed; a message of 5000 bytes whose first buffer is held by someone else; and a
  message of 10000 bytes.
\<close>

definition prio_world :: world where
  "prio_world = test_world test_homa
     [(test_rpc 6000)\<lparr>msgout := (msgout (test_rpc 6000))
         \<lparr>sched_priority := 2, unscheduled := 2000, granted := 5000\<rparr>\<rparr>]"

definition throttle_world :: "nat \<Rightarrow> world" where
  "throttle_world len = test_world
     (test_homa\<lparr>link_idle_time := 11000, max_nic_queue_cycles := 3000, flags := 0\<rparr>)
     [test_rpc len]"

definition throttle_world_2 :: world where
  "throttle_world_2 =
     xmit_data_packet test_env (xmit_clock_read
       (xmit_data_packet test_env (xmit_clock_read (throttle_world 6000) 1) 1) 1) 1"

text \<open>The state after those two packets with the RPC on the throttled list, as the pacer finds it.\<close>

definition linked_world :: world where
  "linked_world = homa_add_to_throttled throttle_world_2 1"

definition shared_world :: world where
  "shared_world = test_world test_homa
     [(test_rpc 5000)\<lparr>msgout := (msgout (test_rpc 5000))
         \<lparr>packets := (packets (msgout (test_rpc 5000)))
                        [0 := skb_get (packets (msgout (test_rpc 5000)) ! 0)]\<rparr>\<rparr>]"

definition resend_world :: world where
  "resend_world = test_world test_homa [test_rpc 10000]"

section \<open>Properties\<close>

subsection \<open>Initialisation\<close>

lemma ceil_pos: "0 < (n::int) \<Longrightarrow> 1 \<le> (n + 1399) div 1400"
proof -
  assume "0 < n"
  then have "1400 \<le> n + 1399" by simp
  then have "0 < (n + 1399) div 1400" by (simp add: pos_imp_zdiv_pos_iff)
  then show ?thesis by simp
qed

lemma last_chunk:
  assumes "0 < (n::int)"
  shows "min 1400 (n - ((n + 1399) div 1400 - 1) * 1400)
           = (if n mod 1400 = 0 then 1400 else n mod 1400)"
proof -
  define q where "q = n div 1400"
  define r where "r = n mod 1400"
  have n: "n = 1400 * q + r" by (simp add: q_def r_def)
  have r: "0 \<le> r" "r < 1400" by (simp_all add: r_def)
  have d: "(n + 1399) div 1400 = q + (r + 1399) div 1400"
    unfolding n by (simp add: add.assoc)
  show ?thesis
  proof (cases "r = 0")
    case True
    then have "(r + 1399) div 1400 = 0" by simp
    with d True n show ?thesis by (simp add: r_def[symmetric])
  next
    case False
    with r have "(r + 1399) div 1400 = 1" by (simp add: div_pos_pos_trivial) 
    with d False n r show ?thesis by (simp add: r_def[symmetric])
  qed
qed


lemma int_of_size_t_small: "len < 2 ^ 31 \<Longrightarrow> int_of_size_t len = int len"
proof -
  assume a: "len < 2 ^ 31"
  then have "int len < 2 ^ 31" by (simp add: of_nat_less_numeral_power_cancel_iff)
  then have "int len mod 2 ^ 32 = int len" by simp
  with \<open>int len < 2 ^ 31\<close> show ?thesis by (simp add: int_of_size_t_def Let_def)
qed

lemma init_packets_frame:
  "init_packets E dest dport sport rid m b = (err, m') \<Longrightarrow>
     length_out m' = length_out m \<and> unscheduled m' = unscheduled m \<and> granted m' = granted m
     \<and> next_offset m' = next_offset m \<and> next_packet m' = next_packet m
     \<and> sched_priority m' = sched_priority m"
proof (induction E dest dport sport rid m b rule: init_packets.induct)
  case (1 E dest dport sport rid m b)
  show ?case
  proof (cases "0 < b")
    case False
    with "1.prems" show ?thesis by (simp add: init_packets.simps)
  next
    case True
    show ?thesis
      using "1.prems" "1.IH" True
      by (subst (asm) init_packets.simps) (auto simp: Let_def split: if_splits)
  qed
qed

lemma init_packets_layout:
  "init_packets E dest dport sport rid m b = (0, m') \<Longrightarrow>
     \<exists>new. packets m' = packets m @ new
       \<and> int (length new) = (if 0 < b then (b + 1399) div 1400 else 0)
       \<and> (\<forall>j < length new.
             h_offset (hdr (new ! j)) = length_out m - b + int j * 1400
           \<and> skb_payload E (new ! j) = min 1400 (b - int j * 1400)
           \<and> h_message_length (hdr (new ! j)) = length_out m
           \<and> h_unscheduled (hdr (new ! j)) = unscheduled m
           \<and> h_retransmit (hdr (new ! j)) = 0
           \<and> users (new ! j) = 1)"
proof (induction E dest dport sport rid m b arbitrary: m' rule: init_packets.induct)
  case (1 E dest dport sport rid m b)
  show ?case
  proof (cases "0 < b")
    case False
    with "1.prems" show ?thesis by (simp add: init_packets.simps)
  next
    case True
    define cur where "cur = (if HOMA_MAX_DATA_PER_PACKET > b then b else HOMA_MAX_DATA_PER_PACKET)"
    define skb where "skb = skb_put ((skb_put (skb_reset_transport_header
                           (skb_reserve alloc_skb (HOMA_SKB_RESERVE E))) (sizeof_data_header E))
                     \<lparr>hdr := \<lparr>h_sport = sport, h_dport = dport, h_id = rid, h_type = DATA,
                            h_message_length = length_out m,
                            h_offset = length_out m - b,
                            h_unscheduled = unscheduled m,
                            h_cutoff_version = cutoff_version dest,
                            h_retransmit = 0\<rparr>\<rparr>) cur"
    define m1 where "m1 = m\<lparr>packets := packets m @ [skb]\<rparr>"
    from "1.prems" True have ok: "alloc_skb_ok E (length (packets m))"
      and cp: "skb_add_data_nocache E (length (packets m)) cur = 0"
      and rec: "init_packets E dest dport sport rid m1 (b - HOMA_MAX_DATA_PER_PACKET) = (0, m')"
      by (subst (asm) init_packets.simps; simp add: Let_def cur_def skb_def m1_def ENOMEM_def split: if_splits)+
    from "1.IH"[OF True refl refl _ refl refl refl _ rec[unfolded m1_def skb_def cur_def]] ok cp
    obtain new where new: "packets m' = packets m1 @ new"
       "int (length new) = (if 0 < b - 1400 then (b - 1400 + 1399) div 1400 else 0)"
       "\<forall>j < length new.
             h_offset (hdr (new ! j)) = length_out m1 - (b - 1400) + int j * 1400
           \<and> skb_payload E (new ! j) = min 1400 (b - 1400 - int j * 1400)
           \<and> h_message_length (hdr (new ! j)) = length_out m1
           \<and> h_unscheduled (hdr (new ! j)) = unscheduled m1
           \<and> h_retransmit (hdr (new ! j)) = 0
           \<and> users (new ! j) = 1"
      by (auto simp: cur_def m1_def skb_def HOMA_MAX_DATA_PER_PACKET_def)
    have skb: "h_offset (hdr skb) = length_out m - b" "skb_payload E skb = min 1400 b"
       "h_message_length (hdr skb) = length_out m" "h_unscheduled (hdr skb) = unscheduled m"
       "h_retransmit (hdr skb) = 0" "users skb = 1"
      by (simp_all add: skb_def cur_def skb_payload_def skb_put_def skb_reset_transport_header_def
            skb_reserve_def alloc_skb_def HOMA_MAX_DATA_PER_PACKET_def)
    have len: "int (length (skb # new)) = (if 0 < b then (b + 1399) div 1400 else 0)"
      using new(2) True by (simp split: if_splits)
    have each: "\<forall>j < length (skb # new).
             h_offset (hdr ((skb # new) ! j)) = length_out m - b + int j * 1400
           \<and> skb_payload E ((skb # new) ! j) = min 1400 (b - int j * 1400)
           \<and> h_message_length (hdr ((skb # new) ! j)) = length_out m
           \<and> h_unscheduled (hdr ((skb # new) ! j)) = unscheduled m
           \<and> h_retransmit (hdr ((skb # new) ! j)) = 0
           \<and> users ((skb # new) ! j) = 1"
    proof (intro allI impI)
      fix j assume j: "j < length (skb # new)"
      show "h_offset (hdr ((skb # new) ! j)) = length_out m - b + int j * 1400
           \<and> skb_payload E ((skb # new) ! j) = min 1400 (b - int j * 1400)
           \<and> h_message_length (hdr ((skb # new) ! j)) = length_out m
           \<and> h_unscheduled (hdr ((skb # new) ! j)) = unscheduled m
           \<and> h_retransmit (hdr ((skb # new) ! j)) = 0
           \<and> users ((skb # new) ! j) = 1"
      proof (cases j)
        case 0
        with skb show ?thesis by simp
      next
        case (Suc k)
        with j have "k < length new" by simp
        with new(3) Suc show ?thesis by (simp add: m1_def algebra_simps)
      qed
    qed
    have "packets m' = packets m @ (skb # new)"
      using new(1) by (simp add: m1_def)
    with len each show ?thesis by blast
  qed
qed


lemma init_packets_succeeds:
  "\<forall>k. alloc_skb_ok E k \<Longrightarrow> \<forall>k n. skb_add_data_nocache E k n = 0 \<Longrightarrow>
     fst (init_packets E dest dport sport rid m b) = 0"
proof (induction E dest dport sport rid m b rule: init_packets.induct)
  case (1 E dest dport sport rid m b)
  show ?case
  proof (cases "0 < b")
    case False
    then show ?thesis by (simp add: init_packets.simps)
  next
    case True
    show ?thesis
      using "1.prems" "1.IH" True
      by (subst init_packets.simps) (simp add: Let_def)
  qed
qed

lemma init_success_cases:
  assumes "homa_message_out_init E m0 h len dest dport sport rid = (0, m)"
  shows "len \<le> HOMA_MAX_MESSAGE_LENGTH E"
    and "\<exists>m'. init_packets E dest dport sport rid
            (m0\<lparr>length_out := int_of_size_t len, packets := [], next_packet := 0,
                 next_offset := 0, unscheduled := rtt_bytes h,
                 granted := min (rtt_bytes h) (int_of_size_t len), sched_priority := 0\<rparr>)
            (int_of_size_t len) = (0, m') \<and> m = m'\<lparr>next_packet := 0\<rparr>"
proof -
  show le: "len \<le> HOMA_MAX_MESSAGE_LENGTH E"
    using assms by (auto simp: homa_message_out_init_def Let_def EINVAL_def split: if_splits)
  have eq: "(if rtt_bytes h > int_of_size_t len
          then m0\<lparr>length_out := int_of_size_t len, packets := [], next_packet := 0,
                 next_offset := 0, unscheduled := rtt_bytes h, granted := int_of_size_t len\<rparr>
          else m0\<lparr>length_out := int_of_size_t len, packets := [], next_packet := 0,
                 next_offset := 0, unscheduled := rtt_bytes h, granted := rtt_bytes h\<rparr>)
         = m0\<lparr>length_out := int_of_size_t len, packets := [], next_packet := 0,
                 next_offset := 0, unscheduled := rtt_bytes h,
                 granted := min (rtt_bytes h) (int_of_size_t len)\<rparr>"
    by (simp add: min_def)
  show "\<exists>m'. init_packets E dest dport sport rid
            (m0\<lparr>length_out := int_of_size_t len, packets := [], next_packet := 0,
                 next_offset := 0, unscheduled := rtt_bytes h,
                 granted := min (rtt_bytes h) (int_of_size_t len), sched_priority := 0\<rparr>)
            (int_of_size_t len) = (0, m') \<and> m = m'\<lparr>next_packet := 0\<rparr>"
    using assms le
    by (auto simp: homa_message_out_init_def Let_def min_def split: if_splits prod.splits)
qed

lemma init_succeeds:
  assumes "len \<le> HOMA_MAX_MESSAGE_LENGTH E" and "\<forall>k. alloc_skb_ok E k"
    and "\<forall>k n. skb_add_data_nocache E k n = 0"
  shows "fst (homa_message_out_init E m0 h len dest dport sport rid) = 0"
  using assms(1) init_packets_succeeds[OF assms(2,3)]
  by (simp add: homa_message_out_init_def Let_def case_prod_beta)

lemma test_env_ok:
  "HOMA_MAX_MESSAGE_LENGTH test_env = 1000000" "\<forall>k. alloc_skb_ok test_env k"
  "\<forall>k n. skb_add_data_nocache test_env k n = 0"
  by (simp_all add: test_env_def)

lemma test_init_ok:
  "len \<le> 1000000 \<Longrightarrow>
     homa_message_out_init test_env empty_msgout test_homa len test_peer 99 40000 1
       = (0, msgout (test_rpc len))"
  using init_succeeds[of len test_env empty_msgout test_homa test_peer 99 40000 1] test_env_ok
  by (simp add: test_rpc_def prod_eq_iff)

text \<open>The arithmetic of \<^verbatim>\<open>int\<close> on values where nothing wraps.\<close>

lemma c_div_nonneg: "0 \<le> a \<Longrightarrow> 0 < b \<Longrightarrow> c_div a b = a div b"
  by (simp add: c_div_def)

lemma c_int_id: "- (2 ^ 31) \<le> x \<Longrightarrow> x < 2 ^ 31 \<Longrightarrow> c_int x = x"
proof (cases "0 \<le> x")
  case True
  assume "x < 2 ^ 31"
  with True have "x mod 2 ^ 32 = x" by (simp add: mod_pos_pos_trivial)
  with \<open>x < 2 ^ 31\<close> show ?thesis by (simp add: c_int_def)
next
  case False
  assume a: "- (2 ^ 31) \<le> x"
  have "x mod 2 ^ 32 = (x + 2 ^ 32) mod 2 ^ 32" by simp
  also have "\<dots> = x + 2 ^ 32" using a False by (intro mod_pos_pos_trivial) simp_all
  finally show ?thesis using a False by (simp add: c_int_def)
qed

text \<open>The same on literals, for the evaluation of the examples.\<close>

lemma c_int_numeral:
  "c_int (numeral n)
     = (if (numeral n :: int) mod 2 ^ 32 < 2 ^ 31 then numeral n mod 2 ^ 32
        else numeral n mod 2 ^ 32 - 2 ^ 32)"
  by (simp add: c_int_def Let_def)

lemma c_div_numeral: "c_div (numeral a) (numeral b) = numeral a div numeral b"
  by (simp add: c_div_def)

lemmas test_defs = test_env_def test_peer_def test_homa_def empty_msgout_def test_rpc_def
  test_world_def homa_message_out_init_def int_of_size_t_def HOMA_MAX_DATA_PER_PACKET_def
  alloc_skb_def skb_reserve_def skb_reset_transport_header_def skb_put_def
  skb_transport_offset_def skb_pull_def skb_get_def kfree_skb_def skb_shared_def
  set_priority_def homa_xmit_data_sub_def homa_update_idle_time_def c_div_numeral c_int_numeral
  xmit_throttle_check_def xmit_clock_read_def xmit_data_packet_def homa_add_to_throttled_def
  Let_def init_packets.simps

lemma init_layout:
  assumes "HOMA_MAX_MESSAGE_LENGTH E < 2 ^ 31"
    and "homa_message_out_init E m0 h len dest dport sport rid = (0, m)"
  shows "int (length (packets m))
           = (int len + HOMA_MAX_DATA_PER_PACKET - 1) div HOMA_MAX_DATA_PER_PACKET
       \<and> (len = 0 \<longrightarrow> packets m = [])
       \<and> (0 < len \<longrightarrow> 1 \<le> length (packets m))
       \<and> (\<forall>i < length (packets m).
             h_offset (hdr (packets m ! i)) = int i * HOMA_MAX_DATA_PER_PACKET
           \<and> skb_payload E (packets m ! i) \<le> HOMA_MAX_DATA_PER_PACKET)
       \<and> (0 < len \<longrightarrow> skb_payload E (last (packets m))
             = (if int len mod HOMA_MAX_DATA_PER_PACKET = 0 then HOMA_MAX_DATA_PER_PACKET
                else int len mod HOMA_MAX_DATA_PER_PACKET))
       \<and> len \<le> HOMA_MAX_MESSAGE_LENGTH E"
proof -
  from init_success_cases[OF assms(2)] obtain m' where
    le: "len \<le> HOMA_MAX_MESSAGE_LENGTH E" and
    ip: "init_packets E dest dport sport rid
            (m0\<lparr>length_out := int_of_size_t len, packets := [], next_packet := 0,
                 next_offset := 0, unscheduled := rtt_bytes h,
                 granted := min (rtt_bytes h) (int_of_size_t len), sched_priority := 0\<rparr>)
            (int_of_size_t len) = (0, m')" and m: "m = m'\<lparr>next_packet := 0\<rparr>"
    by blast
  from le assms(1) have "len < 2 ^ 31" by simp
  then have conv: "int_of_size_t len = int len" by (rule int_of_size_t_small)
  from init_packets_layout[OF ip] m conv obtain new where
    pk: "packets m = new" and
    n: "int (length new) = (if 0 < int len then (int len + 1399) div 1400 else 0)" and
    each: "\<forall>j < length new. h_offset (hdr (new ! j)) = int j * 1400
             \<and> skb_payload E (new ! j) = min 1400 (int len - int j * 1400)"
    by auto
  have n': "int (length new) = (int len + 1399) div 1400"
    using n by (cases "len = 0") simp_all
  have c1: "int (length (packets m))
           = (int len + HOMA_MAX_DATA_PER_PACKET - 1) div HOMA_MAX_DATA_PER_PACKET"
    using n' pk by (simp add: HOMA_MAX_DATA_PER_PACKET_def)
  have c2: "len = 0 \<longrightarrow> packets m = []"
    using n' pk by auto
  have c3: "0 < len \<longrightarrow> 1 \<le> length (packets m)"
  proof
    assume "0 < len"
    then have "1 \<le> (int len + 1399) div 1400" by (simp add: ceil_pos)
    with n' pk show "1 \<le> length (packets m)" by simp
  qed
  have c4: "\<forall>i < length (packets m).
             h_offset (hdr (packets m ! i)) = int i * HOMA_MAX_DATA_PER_PACKET
           \<and> skb_payload E (packets m ! i) \<le> HOMA_MAX_DATA_PER_PACKET"
    using each pk by (simp add: HOMA_MAX_DATA_PER_PACKET_def)
  have c5: "0 < len \<longrightarrow> skb_payload E (last (packets m))
             = (if int len mod HOMA_MAX_DATA_PER_PACKET = 0 then HOMA_MAX_DATA_PER_PACKET
                else int len mod HOMA_MAX_DATA_PER_PACKET)"
  proof
    assume pos: "0 < len"
    with c3 pk have ne: "new \<noteq> []" by auto
    then have l: "last new = new ! (length new - 1)" by (rule last_conv_nth)
    from ne have lt: "length new - 1 < length new" by simp
    have k: "int (length new - 1) = (int len + 1399) div 1400 - 1"
      using n' ne by (simp add: of_nat_diff Suc_leI)
    from each lt have A: "skb_payload E (last new)
        = min 1400 (int len - int (length new - 1) * 1400)"
      by (simp add: l)
    from pos have "min 1400 (int len - ((int len + 1399) div 1400 - 1) * 1400)
        = (if int len mod 1400 = 0 then 1400 else int len mod 1400)"
      by (intro last_chunk) simp
    then show "skb_payload E (last (packets m))
             = (if int len mod HOMA_MAX_DATA_PER_PACKET = 0 then HOMA_MAX_DATA_PER_PACKET
                else int len mod HOMA_MAX_DATA_PER_PACKET)"
      unfolding pk HOMA_MAX_DATA_PER_PACKET_def A k .
  qed
  from c1 c2 c3 c4 c5 le show ?thesis by blast
qed

lemma init_fields:
  assumes "HOMA_MAX_MESSAGE_LENGTH E < 2 ^ 31"
    and "homa_message_out_init E m0 h len dest dport sport rid = (0, m)"
  shows "length_out m = int len \<and> next_offset m = 0 \<and> next_packet m = 0
       \<and> unscheduled m = rtt_bytes h \<and> granted m = min (int len) (rtt_bytes h)
       \<and> sched_priority m = 0"
proof -
  from init_success_cases[OF assms(2)] obtain m' where
    le: "len \<le> HOMA_MAX_MESSAGE_LENGTH E" and
    ip: "init_packets E dest dport sport rid
            (m0\<lparr>length_out := int_of_size_t len, packets := [], next_packet := 0,
                 next_offset := 0, unscheduled := rtt_bytes h,
                 granted := min (rtt_bytes h) (int_of_size_t len), sched_priority := 0\<rparr>)
            (int_of_size_t len) = (0, m')" and m: "m = m'\<lparr>next_packet := 0\<rparr>"
    by blast
  from le assms(1) have "len < 2 ^ 31" by simp
  then have conv: "int_of_size_t len = int len" by (rule int_of_size_t_small)
  from init_packets_frame[OF ip] m conv show ?thesis by auto
qed

lemma test_rpc_fields:
  assumes "len \<le> 1000000"
  shows "length_out (msgout (test_rpc len)) = int len"
    and "next_offset (msgout (test_rpc len)) = 0"
    and "next_packet (msgout (test_rpc len)) = 0"
    and "unscheduled (msgout (test_rpc len)) = 10000"
    and "granted (msgout (test_rpc len)) = min (int len) 10000"
    and "sched_priority (msgout (test_rpc len)) = 0"
    and "peer (test_rpc len) = test_peer"
proof -
  have h1: "HOMA_MAX_MESSAGE_LENGTH test_env < 2 ^ 31" by (simp add: test_env_ok)
  note f = init_fields[OF h1 test_init_ok[OF assms]]
  from f show "length_out (msgout (test_rpc len)) = int len" by blast
  from f show "next_offset (msgout (test_rpc len)) = 0" by blast
  from f show "next_packet (msgout (test_rpc len)) = 0" by blast
  from f show "unscheduled (msgout (test_rpc len)) = 10000" by (simp add: test_homa_def)
  from f show "granted (msgout (test_rpc len)) = min (int len) 10000" by (simp add: test_homa_def)
  from f show "sched_priority (msgout (test_rpc len)) = 0" by blast
  show "peer (test_rpc len) = test_peer" by (simp add: test_rpc_def)
qed

lemma init_aligned:
  assumes "HOMA_MAX_MESSAGE_LENGTH E < 2 ^ 31"
    and "homa_message_out_init E m0 h len dest dport sport rid = (0, m)"
  shows "unsent_aligned m"
    and "\<forall>i < length (packets m). h_offset (hdr (packets m ! i)) = int i * HOMA_MAX_DATA_PER_PACKET"
proof -
  from init_layout[OF assms] show a: "\<forall>i < length (packets m).
      h_offset (hdr (packets m ! i)) = int i * HOMA_MAX_DATA_PER_PACKET"
    by blast
  from init_fields[OF assms] have "next_offset m = 0" "next_packet m = 0" by blast+
  with a show "unsent_aligned m" by (simp add: unsent_aligned_def)
qed

lemma test_rpc_aligned:
  assumes "len \<le> 1000000"
  shows "unsent_aligned (msgout (test_rpc len))"
    and "\<forall>i < length (packets (msgout (test_rpc len))).
           h_offset (hdr (packets (msgout (test_rpc len)) ! i)) = int i * HOMA_MAX_DATA_PER_PACKET"
proof -
  have h1: "HOMA_MAX_MESSAGE_LENGTH test_env < 2 ^ 31" by (simp add: test_env_ok)
  from init_aligned[OF h1 test_init_ok[OF assms]]
  show "unsent_aligned (msgout (test_rpc len))"
    and "\<forall>i < length (packets (msgout (test_rpc len))).
           h_offset (hdr (packets (msgout (test_rpc len)) ! i)) = int i * HOMA_MAX_DATA_PER_PACKET"
    by blast+
qed

text \<open>
  Claim C1, as the code has it. After every successful \<^verbatim>\<open>homa_message_out_init\<close> of a message of
  length \<open>len\<close>, \<open>unscheduled\<close> equals \<open>rtt_bytes\<close> (it is not capped by the length) and
  \<open>granted\<close> equals \<open>min len rtt_bytes\<close>. So \<open>granted \<le> unscheduled\<close> and
  \<open>granted \<le> length\<close> hold right after the initialisation, and \<open>unscheduled \<le> granted\<close> holds
  exactly when \<open>rtt_bytes \<le> len\<close>. (\<^verbatim>\<open>HOMA_MAX_MESSAGE_LENGTH\<close> fits an \<^verbatim>\<open>int\<close>.)
\<close>

theorem init_unscheduled_granted:
  assumes "HOMA_MAX_MESSAGE_LENGTH E < 2 ^ 31"
    and "homa_message_out_init E m0 h len dest dport sport rid = (0, m)"
  shows "unscheduled m = rtt_bytes h
       \<and> granted m = min (int len) (rtt_bytes h)
       \<and> length_out m = int len
       \<and> granted m \<le> unscheduled m
       \<and> granted m \<le> length_out m
       \<and> (unscheduled m \<le> granted m \<longleftrightarrow> rtt_bytes h \<le> int len)"
proof -
  from init_success_cases[OF assms(2)] obtain m' where
    le: "len \<le> HOMA_MAX_MESSAGE_LENGTH E" and
    ip: "init_packets E dest dport sport rid
            (m0\<lparr>length_out := int_of_size_t len, packets := [], next_packet := 0,
                 next_offset := 0, unscheduled := rtt_bytes h,
                 granted := min (rtt_bytes h) (int_of_size_t len), sched_priority := 0\<rparr>)
            (int_of_size_t len) = (0, m')" and m: "m = m'\<lparr>next_packet := 0\<rparr>"
    by blast
  from le assms(1) have "len < 2 ^ 31" by simp
  then have conv: "int_of_size_t len = int len" by (rule int_of_size_t_small)
  from init_packets_frame[OF ip] m conv show ?thesis by auto
qed

theorem init_unscheduled_granted_witness:
  "HOMA_MAX_MESSAGE_LENGTH test_env < 2 ^ 31
   \<and> homa_message_out_init test_env empty_msgout test_homa 3000 test_peer 99 40000 1
       = (0, msgout (test_rpc 3000))
   \<and> unscheduled (msgout (test_rpc 3000)) = 10000
   \<and> granted (msgout (test_rpc 3000)) = 3000
   \<and> length_out (msgout (test_rpc 3000)) = 3000"
proof -
  have h1: "HOMA_MAX_MESSAGE_LENGTH test_env < 2 ^ 31" by (simp add: test_env_ok)
  have h2: "homa_message_out_init test_env empty_msgout test_homa 3000 test_peer 99 40000 1
       = (0, msgout (test_rpc 3000))" by (simp add: test_init_ok)
  from init_unscheduled_granted[OF h1 h2] h1 h2 show ?thesis
    by (simp add: test_homa_def)
qed

text \<open>
  The claim as the spec words it fails for a message shorter than \<open>rtt_bytes\<close>: with 3000
  bytes and \<open>rtt_bytes = 10000\<close> the field \<open>unscheduled\<close> is 10000, not \<open>min 3000 10000\<close>, and
  it exceeds \<open>granted = 3000\<close>.
\<close>

theorem init_unscheduled_counterexample:
  "fst (homa_message_out_init test_env empty_msgout test_homa 3000 test_peer 99 40000 1) = 0
   \<and> unscheduled (snd (homa_message_out_init test_env empty_msgout test_homa 3000 test_peer
        99 40000 1)) \<noteq> min 3000 (rtt_bytes test_homa)
   \<and> \<not> unscheduled (snd (homa_message_out_init test_env empty_msgout test_homa 3000 test_peer
        99 40000 1))
       \<le> granted (snd (homa_message_out_init test_env empty_msgout test_homa 3000 test_peer
        99 40000 1))"
proof -
  have h: "homa_message_out_init test_env empty_msgout test_homa 3000 test_peer 99 40000 1
       = (0, msgout (test_rpc 3000))" by (simp add: test_init_ok)
  have "unscheduled (msgout (test_rpc 3000)) = 10000 \<and> granted (msgout (test_rpc 3000)) = 3000"
    by (simp add: test_rpc_def homa_message_out_init_def Let_def test_env_def test_homa_def
          empty_msgout_def int_of_size_t_def init_packets.simps HOMA_MAX_DATA_PER_PACKET_def)
  with h show ?thesis by (simp add: test_homa_def)
qed

text \<open>
  Claim C2, as the code has it. Let \<^verbatim>\<open>HOMA_MAX_MESSAGE_LENGTH\<close> fit an \<^verbatim>\<open>int\<close>. When
  \<open>len \<le> HOMA_MAX_MESSAGE_LENGTH\<close> and no allocation and no copy fails, the initialisation
  succeeds. Every successful initialisation has \<open>len \<le> HOMA_MAX_MESSAGE_LENGTH\<close> and
  produces exactly \<open>\<lceil>len / HOMA_MAX_DATA_PER_PACKET\<rceil>\<close> packet buffers: none when \<open>len = 0\<close>, at
  least one when \<open>len > 0\<close>. The \<open>i\<close>-th buffer's header offset is
  \<open>i * HOMA_MAX_DATA_PER_PACKET\<close>, no buffer carries more than \<^verbatim>\<open>HOMA_MAX_DATA_PER_PACKET\<close>
  bytes, and for \<open>len > 0\<close> the last one carries \<open>len mod HOMA_MAX_DATA_PER_PACKET\<close> bytes, or
  \<^verbatim>\<open>HOMA_MAX_DATA_PER_PACKET\<close> when \<open>len\<close> is a multiple of it.
\<close>

theorem init_packet_layout:
  assumes "HOMA_MAX_MESSAGE_LENGTH E < 2 ^ 31"
  shows "(len \<le> HOMA_MAX_MESSAGE_LENGTH E \<and> (\<forall>k. alloc_skb_ok E k)
            \<and> (\<forall>k n. skb_add_data_nocache E k n = 0)
          \<longrightarrow> fst (homa_message_out_init E m0 h len dest dport sport rid) = 0)
       \<and> (homa_message_out_init E m0 h len dest dport sport rid = (0, m) \<longrightarrow>
            len \<le> HOMA_MAX_MESSAGE_LENGTH E
          \<and> int (length (packets m))
               = (int len + HOMA_MAX_DATA_PER_PACKET - 1) div HOMA_MAX_DATA_PER_PACKET
          \<and> (len = 0 \<longrightarrow> packets m = [])
          \<and> (0 < len \<longrightarrow> 1 \<le> length (packets m))
          \<and> (\<forall>i < length (packets m).
                h_offset (hdr (packets m ! i)) = int i * HOMA_MAX_DATA_PER_PACKET
              \<and> skb_payload E (packets m ! i) \<le> HOMA_MAX_DATA_PER_PACKET)
          \<and> (0 < len \<longrightarrow> skb_payload E (last (packets m))
                = (if int len mod HOMA_MAX_DATA_PER_PACKET = 0 then HOMA_MAX_DATA_PER_PACKET
                   else int len mod HOMA_MAX_DATA_PER_PACKET)))"
proof (intro conjI impI)
  assume "len \<le> HOMA_MAX_MESSAGE_LENGTH E \<and> (\<forall>k. alloc_skb_ok E k)
            \<and> (\<forall>k n. skb_add_data_nocache E k n = 0)"
  then show "fst (homa_message_out_init E m0 h len dest dport sport rid) = 0"
    by (simp add: init_succeeds)
next
  assume ok: "homa_message_out_init E m0 h len dest dport sport rid = (0, m)"
  note l = init_layout[OF assms ok]
  from l show "len \<le> HOMA_MAX_MESSAGE_LENGTH E" by blast
  from l show "int (length (packets m))
               = (int len + HOMA_MAX_DATA_PER_PACKET - 1) div HOMA_MAX_DATA_PER_PACKET"
    by blast
  from l show "\<forall>i < length (packets m).
                h_offset (hdr (packets m ! i)) = int i * HOMA_MAX_DATA_PER_PACKET
              \<and> skb_payload E (packets m ! i) \<le> HOMA_MAX_DATA_PER_PACKET"
    by blast
  { assume "len = 0" with l show "packets m = []" by blast }
  { assume "0 < len" with l show "1 \<le> length (packets m)" by blast }
  { assume "0 < len" with l show "skb_payload E (last (packets m))
                = (if int len mod HOMA_MAX_DATA_PER_PACKET = 0 then HOMA_MAX_DATA_PER_PACKET
                   else int len mod HOMA_MAX_DATA_PER_PACKET)" by blast }
qed

theorem init_packet_layout_witness:
  "HOMA_MAX_MESSAGE_LENGTH test_env < 2 ^ 31
   \<and> homa_message_out_init test_env empty_msgout test_homa 3000 test_peer 99 40000 1
       = (0, msgout (test_rpc 3000))
   \<and> length (packets (msgout (test_rpc 3000))) = 3
   \<and> h_offset (hdr (packets (msgout (test_rpc 3000)) ! 2)) = 2800
   \<and> skb_payload test_env (last (packets (msgout (test_rpc 3000)))) = 200"
proof -
  have h1: "HOMA_MAX_MESSAGE_LENGTH test_env < 2 ^ 31" by (simp add: test_env_ok)
  have h2: "homa_message_out_init test_env empty_msgout test_homa 3000 test_peer 99 40000 1
       = (0, msgout (test_rpc 3000))" by (simp add: test_init_ok)
  from init_packet_layout[OF h1, of 3000 empty_msgout test_homa test_peer 99 40000 1
         "msgout (test_rpc 3000)"] h2
  have t: "int (length (packets (msgout (test_rpc 3000))))
               = (3000 + HOMA_MAX_DATA_PER_PACKET - 1) div HOMA_MAX_DATA_PER_PACKET
          \<and> (\<forall>i < length (packets (msgout (test_rpc 3000))).
                h_offset (hdr (packets (msgout (test_rpc 3000)) ! i))
                  = int i * HOMA_MAX_DATA_PER_PACKET)
          \<and> skb_payload test_env (last (packets (msgout (test_rpc 3000))))
                = (if (3000::int) mod HOMA_MAX_DATA_PER_PACKET = 0 then HOMA_MAX_DATA_PER_PACKET
                   else 3000 mod HOMA_MAX_DATA_PER_PACKET)"
    by simp
  from t have n: "length (packets (msgout (test_rpc 3000))) = 3"
    by (simp add: HOMA_MAX_DATA_PER_PACKET_def)
  from t n have o: "h_offset (hdr (packets (msgout (test_rpc 3000)) ! 2)) = 2800"
    by (simp add: HOMA_MAX_DATA_PER_PACKET_def)
  from t have p: "skb_payload test_env (last (packets (msgout (test_rpc 3000)))) = 200"
    by (simp add: HOMA_MAX_DATA_PER_PACKET_def)
  from h1 h2 n o p show ?thesis by blast
qed

text \<open>
  The claim as the spec words it fails for the empty message: the loop body never runs,
  so a successful initialisation with \<open>len = 0\<close> leaves no packet buffer at all.
\<close>

theorem init_zero_length_counterexample:
  "fst (homa_message_out_init test_env empty_msgout test_homa 0 test_peer 99 40000 1) = 0
   \<and> length (packets (snd (homa_message_out_init test_env empty_msgout test_homa 0 test_peer
        99 40000 1))) = 0"
  by (simp add: homa_message_out_init_def Let_def test_env_def test_homa_def
          empty_msgout_def int_of_size_t_def init_packets.simps)

subsection \<open>The link-idle clock\<close>

lemma update_idle_eq:
  "link_idle_time (homa (homa_update_idle_time E W bytes))
     = max (link_idle_time (homa W)) (get_cycles E (cycle_reads W))
         + word_of_int (c_div (c_int (c_int (bytes + (HOMA_MAX_IPV4_HEADER E
                                 + HOMA_VLAN_HEADER E + HOMA_ETH_OVERHEAD E))
                               * cycles_per_kbyte (homa W))) 1000)"
proof (cases "link_idle_time (homa W) < get_cycles E (cycle_reads W)")
  case True
  then have "max (link_idle_time (homa W)) (get_cycles E (cycle_reads W))
               = get_cycles E (cycle_reads W)"
    by (intro max_absorb2 less_imp_le)
  with True show ?thesis by (simp add: homa_update_idle_time_def Let_def)
next
  case False
  then have "max (link_idle_time (homa W)) (get_cycles E (cycle_reads W))
               = link_idle_time (homa W)"
    by (intro max_absorb1) (simp add: not_less)
  with False show ?thesis by (simp add: homa_update_idle_time_def Let_def)
qed

lemma word_add_no_wrap:
  fixes a :: "64 word"
  assumes "0 \<le> c" and "uint a + c < 2 ^ 64"
  shows "a \<le> a + word_of_int c"
proof -
  have "uint (a + word_of_int c) = (uint a + c) mod 2 ^ 64"
    by (simp add: uint_word_ariths uint_word_of_int mod_add_right_eq)
  also have "\<dots> = uint a + c"
    using assms by (simp add: mod_pos_pos_trivial)
  finally show ?thesis using assms(1) by (simp add: word_le_def)
qed


text \<open>
  Claim C8, as the code has it. \<^verbatim>\<open>homa_update_idle_time\<close> sets \<open>link_idle_time\<close> to
  \<open>max old now + cycles\<close>, a sum of unsigned 64-bit numbers, where \<open>now\<close> is the reading of
  the clock and \<open>cycles\<close> is the \<^verbatim>\<open>int\<close> that the code computes: the sum
  \<open>b = bytes + HOMA_MAX_IPV4_HEADER + HOMA_VLAN_HEADER + HOMA_ETH_OVERHEAD\<close> and the product
  \<open>b * cycles_per_kbyte\<close> are kept in 32 bits, and the division by 1000 is the division of
  C. When \<open>b\<close> fits in an \<^verbatim>\<open>int\<close> and the product lies in \<open>[0, 2 ^ 31)\<close>, \<open>cycles\<close> is
  \<open>b * cycles_per_kbyte div 1000\<close>. The new value is not less than the old one whenever
  \<open>cycles\<close> is not negative and the sum does not wrap around \<open>2 ^ 64\<close>.
\<close>

theorem update_idle_time_advance:
  "(let old = link_idle_time (homa W);
        now = get_cycles E (cycle_reads W);
        b = bytes + (HOMA_MAX_IPV4_HEADER E + HOMA_VLAN_HEADER E + HOMA_ETH_OVERHEAD E);
        cycles = c_div (c_int (c_int b * cycles_per_kbyte (homa W))) 1000;
        new = link_idle_time (homa (homa_update_idle_time E W bytes))
    in new = max old now + word_of_int cycles
       \<and> (- (2 ^ 31) \<le> b \<and> b < 2 ^ 31 \<and> 0 \<le> b * cycles_per_kbyte (homa W)
            \<and> b * cycles_per_kbyte (homa W) < 2 ^ 31 \<longrightarrow>
            cycles = (b * cycles_per_kbyte (homa W)) div 1000
            \<and> new = max old now + word_of_int ((b * cycles_per_kbyte (homa W)) div 1000))
       \<and> (0 \<le> cycles \<and> uint (max old now) + cycles < 2 ^ 64 \<longrightarrow> old \<le> new))"
proof -
  define old where "old = link_idle_time (homa W)"
  define now where "now = get_cycles E (cycle_reads W)"
  define b where "b = bytes + (HOMA_MAX_IPV4_HEADER E + HOMA_VLAN_HEADER E
                                + HOMA_ETH_OVERHEAD E)"
  define cycles where "cycles = c_div (c_int (c_int b * cycles_per_kbyte (homa W))) 1000"
  define new where "new = link_idle_time (homa (homa_update_idle_time E W bytes))"
  have eq: "new = max old now + word_of_int cycles"
    unfolding new_def old_def now_def cycles_def b_def by (rule update_idle_eq)
  have dv: "- (2 ^ 31) \<le> b \<and> b < 2 ^ 31 \<and> 0 \<le> b * cycles_per_kbyte (homa W)
            \<and> b * cycles_per_kbyte (homa W) < 2 ^ 31 \<longrightarrow>
            cycles = (b * cycles_per_kbyte (homa W)) div 1000
            \<and> new = max old now + word_of_int ((b * cycles_per_kbyte (homa W)) div 1000)"
  proof
    assume a: "- (2 ^ 31) \<le> b \<and> b < 2 ^ 31 \<and> 0 \<le> b * cycles_per_kbyte (homa W)
            \<and> b * cycles_per_kbyte (homa W) < 2 ^ 31"
    then have c1: "c_int b = b" by (intro c_int_id) simp_all
    from a have c2: "c_int (b * cycles_per_kbyte (homa W)) = b * cycles_per_kbyte (homa W)"
      by (intro c_int_id) simp_all
    from a have "cycles = (b * cycles_per_kbyte (homa W)) div 1000"
      unfolding cycles_def c1 c2 by (simp add: c_div_nonneg)
    with eq show "cycles = (b * cycles_per_kbyte (homa W)) div 1000
            \<and> new = max old now + word_of_int ((b * cycles_per_kbyte (homa W)) div 1000)"
      by simp
  qed
  have mono: "0 \<le> cycles \<and> uint (max old now) + cycles < 2 ^ 64 \<longrightarrow> old \<le> new"
  proof
    assume a: "0 \<le> cycles \<and> uint (max old now) + cycles < 2 ^ 64"
    have "old \<le> max old now" by simp
    also have "\<dots> \<le> max old now + word_of_int cycles"
      using a by (intro word_add_no_wrap) simp_all
    finally show "old \<le> new" by (simp add: eq)
  qed
  from eq dv mono show ?thesis
    unfolding Let_def old_def now_def b_def cycles_def new_def by blast
qed

text \<open>
  The packet of the unit tests: 1000 bytes and 104 bytes of headers at 1000 cycles per
  kilobyte take 1104 cycles, from 10000 to 11104.
\<close>

theorem update_idle_time_advance_witness:
  "link_idle_time (homa (homa_update_idle_time test_env (test_world test_homa []) 1000)) = 11104
   \<and> link_idle_time (homa (test_world test_homa []))
        \<le> link_idle_time (homa (homa_update_idle_time test_env (test_world test_homa []) 1000))"
proof -
  have b: "1000 + (HOMA_MAX_IPV4_HEADER test_env + HOMA_VLAN_HEADER test_env
              + HOMA_ETH_OVERHEAD test_env) = 1104"
    by (simp add: test_env_def)
  have k: "cycles_per_kbyte (homa (test_world test_homa [])) = 1000"
    by (simp add: test_world_def test_homa_def)
  have c: "c_div (c_int (c_int 1104 * 1000)) 1000 = 1104"
    by (simp add: c_div_def c_int_def)
  have o: "link_idle_time (homa (test_world test_homa [])) = 10000"
    by (simp add: test_world_def test_homa_def)
  have n: "get_cycles test_env (cycle_reads (test_world test_homa [])) = 10000"
    by (simp add: test_env_def)
  from update_idle_time_advance[of "test_world test_homa []" test_env 1000]
  show ?thesis
    unfolding Let_def b k c o n by simp
qed


text \<open>
  Claim C8 as the spec words it fails twice. From the largest 64-bit value the sum wraps
  around, and the new \<open>link_idle_time\<close> is smaller than the old one. And at 4000000 cycles
  per kilobyte the product \<open>1104 * 4000000\<close> does not fit in 32 bits: the code keeps
  121032704, so the packet takes 121032 cycles and not 4416000.
\<close>

theorem update_idle_time_wrap_counterexample:
  "link_idle_time (homa (homa_update_idle_time test_env
       (test_world (test_homa\<lparr>link_idle_time := 18446744073709551615\<rparr>) []) 1000))
     < link_idle_time (homa (test_world (test_homa\<lparr>link_idle_time := 18446744073709551615\<rparr>) []))
   \<and> link_idle_time (homa (homa_update_idle_time test_env
       (test_world (test_homa\<lparr>cycles_per_kbyte := 4000000\<rparr>) []) 1000)) = 131032
   \<and> max (link_idle_time (homa (test_world (test_homa\<lparr>cycles_per_kbyte := 4000000\<rparr>) [])))
         (get_cycles test_env 0)
       + word_of_int ((1000 + HOMA_MAX_IPV4_HEADER test_env + HOMA_VLAN_HEADER test_env
                        + HOMA_ETH_OVERHEAD test_env) * 4000000 div 1000)
       = 4426000"
  by (simp add: homa_update_idle_time_def Let_def test_env_def test_world_def test_homa_def
        c_div_def c_int_def)

subsection \<open>The throttled list\<close>

lemma throttled_insert_set: "set (throttled_insert W r L) = insert r (set L)"
  by (induction L) auto

lemma throttled_insert_sorted:
  "sorted (map (bytes_remaining W) L) \<Longrightarrow> sorted (map (bytes_remaining W) (throttled_insert W r L))"
proof (induction L)
  case Nil
  show ?case by simp
next
  case (Cons c rest)
  then show ?case
    by (auto simp: bytes_remaining_def throttled_insert_set)
qed

lemma throttled_insert_filter:
  "sorted (map (bytes_remaining W) L) \<Longrightarrow>
     throttled_insert W r L
       = filter (\<lambda>c. bytes_remaining W c \<le> bytes_remaining W r) L
         @ r # filter (\<lambda>c. bytes_remaining W r < bytes_remaining W c) L"
proof (induction L)
  case Nil
  show ?case by simp
next
  case (Cons c rest)
  show ?case
  proof (cases "bytes_remaining W r < bytes_remaining W c")
    case True
    with Cons.prems have all: "\<forall>x \<in> set rest. bytes_remaining W r < bytes_remaining W x"
      by auto
    then have "filter (\<lambda>c. bytes_remaining W c \<le> bytes_remaining W r) rest = []"
      by (auto simp: filter_empty_conv)
    moreover from all have "filter (\<lambda>c. bytes_remaining W r < bytes_remaining W c) rest = rest"
      by (auto simp: filter_id_conv)
    ultimately show ?thesis using True by (simp add: bytes_remaining_def)
  next
    case False
    with Cons show ?thesis by (simp add: bytes_remaining_def)
  qed
qed

lemma add_rpcs: "rpcs (homa_add_to_throttled W r) = rpcs W"
  by (simp add: homa_add_to_throttled_def)

lemma remaining_cong: "rpcs V = rpcs W \<Longrightarrow> bytes_remaining V = bytes_remaining W"
  by (simp add: bytes_remaining_def fun_eq_iff)

lemma add_remaining: "bytes_remaining (homa_add_to_throttled W r) = bytes_remaining W"
  by (rule remaining_cong) (rule add_rpcs)

lemma add_sorted:
  "sorted (map (bytes_remaining W) (throttled_rpcs (homa W))) \<Longrightarrow>
     sorted (map (bytes_remaining W) (throttled_rpcs (homa (homa_add_to_throttled W r))))"
  by (simp add: homa_add_to_throttled_def throttled_insert_sorted)

lemma add_set:
  "set (throttled_rpcs (homa (homa_add_to_throttled W r))) = insert r (set (throttled_rpcs (homa W)))"
  by (auto simp: homa_add_to_throttled_def throttled_insert_set)

lemma throttled_insert_distinct:
  "distinct L \<Longrightarrow> r \<notin> set L \<Longrightarrow> distinct (throttled_insert W r L)"
  by (induction L) (auto simp: throttled_insert_set)

lemma add_distinct:
  "distinct (throttled_rpcs (homa W)) \<Longrightarrow>
     distinct (throttled_rpcs (homa (homa_add_to_throttled W r)))"
  by (simp add: homa_add_to_throttled_def throttled_insert_distinct)

lemma add_idem: "homa_add_to_throttled (homa_add_to_throttled W r) r = homa_add_to_throttled W r"
proof -
  have "r \<in> set (throttled_rpcs (homa (homa_add_to_throttled W r)))"
    by (simp add: add_set)
  then show ?thesis by (subst homa_add_to_throttled_def) simp
qed

lemma foldl_add:
  "sorted (map (bytes_remaining W) (throttled_rpcs (homa W))) \<Longrightarrow>
   distinct (throttled_rpcs (homa W)) \<Longrightarrow>
     rpcs (foldl homa_add_to_throttled W rs) = rpcs W
   \<and> sorted (map (bytes_remaining W) (throttled_rpcs (homa (foldl homa_add_to_throttled W rs))))
   \<and> distinct (throttled_rpcs (homa (foldl homa_add_to_throttled W rs)))
   \<and> set (throttled_rpcs (homa (foldl homa_add_to_throttled W rs)))
        = set (throttled_rpcs (homa W)) \<union> set rs"
proof (induction rs arbitrary: W)
  case Nil
  then show ?case by simp
next
  case (Cons r rs)
  let ?V = "homa_add_to_throttled W r"
  have s: "sorted (map (bytes_remaining ?V) (throttled_rpcs (homa ?V)))"
    using Cons.prems(1) by (simp add: add_remaining add_sorted)
  have d: "distinct (throttled_rpcs (homa ?V))"
    using Cons.prems(2) by (rule add_distinct)
  from Cons.IH[OF s d] show ?case
    by (simp add: add_remaining add_rpcs add_set)
qed


lemma srpt_remaining:
  "bytes_remaining srpt_world (Suc 0) = 10000" "bytes_remaining srpt_world 2 = 5000"
  "bytes_remaining srpt_world 3 = 15000" "bytes_remaining srpt_world 4 = 12000"
  "bytes_remaining srpt_world 5 = 10000"
  by (simp_all add: bytes_remaining_def srpt_world_def test_world_def test_rpc_fields)

lemma srpt_order:
  "throttled_rpcs (homa (foldl homa_add_to_throttled srpt_world [1, 2, 3, 4, 5]))
     = [2, 1, 5, 4, 3]"
proof -
  have r: "\<And>a. length_out (msgout (rpcs srpt_world a)) - next_offset (msgout (rpcs srpt_world a))
             = bytes_remaining srpt_world a"
    by (simp add: bytes_remaining_def)
  have e: "throttled_rpcs (homa srpt_world) = []"
    by (simp add: srpt_world_def test_world_def test_homa_def)
  show ?thesis
    by (simp add: homa_add_to_throttled_def e r srpt_remaining)
qed

text \<open>
  Claim C9. Calls of \<^verbatim>\<open>homa_add_to_throttled\<close>, for any RPCs in any order, keep the throttled
  list sorted by ascending remaining bytes (\<open>length - next_offset\<close>) and free of duplicates;
  starting from the empty list, the list holds exactly the RPCs that were added. An RPC
  that is on the list is not inserted again: the call changes nothing, so adding twice
  is adding once. A new RPC is placed after every entry that has at most as many bytes
  left as it has, the entries with equally many among them, and before every entry that
  has more; the order of the other entries stays.
\<close>

theorem throttled_list_srpt:
  "(sorted (map (bytes_remaining W) (throttled_rpcs (homa W)))
      \<and> distinct (throttled_rpcs (homa W)) \<longrightarrow>
      (let W' = foldl homa_add_to_throttled W rs
       in sorted (map (bytes_remaining W') (throttled_rpcs (homa W')))
          \<and> distinct (throttled_rpcs (homa W'))
          \<and> set (throttled_rpcs (homa W')) = set (throttled_rpcs (homa W)) \<union> set rs))
   \<and> (r \<in> set (throttled_rpcs (homa W)) \<longrightarrow> homa_add_to_throttled W r = W)
   \<and> homa_add_to_throttled (homa_add_to_throttled W r) r = homa_add_to_throttled W r
   \<and> (sorted (map (bytes_remaining W) (throttled_rpcs (homa W)))
        \<and> r \<notin> set (throttled_rpcs (homa W)) \<longrightarrow>
      throttled_rpcs (homa (homa_add_to_throttled W r))
        = filter (\<lambda>c. bytes_remaining W c \<le> bytes_remaining W r) (throttled_rpcs (homa W))
          @ r # filter (\<lambda>c. bytes_remaining W r < bytes_remaining W c)
                  (throttled_rpcs (homa W)))"
proof (intro conjI impI)
  assume a: "sorted (map (bytes_remaining W) (throttled_rpcs (homa W)))
      \<and> distinct (throttled_rpcs (homa W))"
  then have s: "sorted (map (bytes_remaining W) (throttled_rpcs (homa W)))"
    and d: "distinct (throttled_rpcs (homa W))" by simp_all
  note f = foldl_add[OF s d, of rs]
  from f have "bytes_remaining (foldl homa_add_to_throttled W rs) = bytes_remaining W"
    by (intro remaining_cong) simp
  with f show "let W' = foldl homa_add_to_throttled W rs
       in sorted (map (bytes_remaining W') (throttled_rpcs (homa W')))
          \<and> distinct (throttled_rpcs (homa W'))
          \<and> set (throttled_rpcs (homa W')) = set (throttled_rpcs (homa W)) \<union> set rs"
    by (simp add: Let_def)
next
  assume "r \<in> set (throttled_rpcs (homa W))"
  then show "homa_add_to_throttled W r = W" by (simp add: homa_add_to_throttled_def)
next
  show "homa_add_to_throttled (homa_add_to_throttled W r) r = homa_add_to_throttled W r"
    by (rule add_idem)
next
  assume "sorted (map (bytes_remaining W) (throttled_rpcs (homa W)))
        \<and> r \<notin> set (throttled_rpcs (homa W))"
  then show "throttled_rpcs (homa (homa_add_to_throttled W r))
        = filter (\<lambda>c. bytes_remaining W c \<le> bytes_remaining W r) (throttled_rpcs (homa W))
          @ r # filter (\<lambda>c. bytes_remaining W r < bytes_remaining W c)
                  (throttled_rpcs (homa W))"
    by (simp add: homa_add_to_throttled_def throttled_insert_filter)
qed


text \<open>
  The scenario of the unit test: added in the order 1, 2, 3, 4, 5, the RPCs with 10000,
  5000, 15000, 12000 and 10000 bytes left end in the order 2, 1, 5, 4, 3, that is 5000,
  10000, 10000, 12000, 15000 with the second 10000 after the first; adding RPC 1 again
  changes nothing.
\<close>

theorem throttled_list_srpt_witness:
  "sorted (map (bytes_remaining srpt_world) (throttled_rpcs (homa srpt_world)))
   \<and> distinct (throttled_rpcs (homa srpt_world))
   \<and> throttled_rpcs (homa (foldl homa_add_to_throttled srpt_world [1, 2, 3, 4, 5]))
        = [2, 1, 5, 4, 3]
   \<and> map (bytes_remaining srpt_world) [2, 1, 5, 4, 3] = [5000, 10000, 10000, 12000, 15000]
   \<and> sorted (map (bytes_remaining (foldl homa_add_to_throttled srpt_world [1, 2, 3, 4, 5]))
        (throttled_rpcs (homa (foldl homa_add_to_throttled srpt_world [1, 2, 3, 4, 5]))))
   \<and> homa_add_to_throttled (foldl homa_add_to_throttled srpt_world [1, 2, 3, 4, 5]) 1
        = foldl homa_add_to_throttled srpt_world [1, 2, 3, 4, 5]"
proof -
  let ?W = "foldl homa_add_to_throttled srpt_world [1, 2, 3, 4, 5]"
  have e: "throttled_rpcs (homa srpt_world) = []"
    by (simp add: srpt_world_def test_world_def test_homa_def)
  then have h: "sorted (map (bytes_remaining srpt_world) (throttled_rpcs (homa srpt_world)))
      \<and> distinct (throttled_rpcs (homa srpt_world))" by simp
  from throttled_list_srpt[of srpt_world "[1, 2, 3, 4, 5]" 1] h
  have s: "sorted (map (bytes_remaining ?W) (throttled_rpcs (homa ?W)))"
    unfolding Let_def by blast
  have "1 \<in> set (throttled_rpcs (homa ?W))"
    unfolding srpt_order by simp
  with throttled_list_srpt[of ?W "[]" 1]
  have i: "homa_add_to_throttled ?W 1 = ?W"
    by blast
  have m: "map (bytes_remaining srpt_world) [2, 1, 5, 4, 3]
             = [5000, 10000, 10000, 12000, 15000]"
    by (simp add: srpt_remaining)
  from h s i srpt_order m show ?thesis by blast
qed

subsection \<open>The data sender\<close>

lemma sub_rpcs: "rpcs (snd (homa_xmit_data_sub E V skb r)) = rpcs V"
  by (simp add: homa_xmit_data_sub_def homa_update_idle_time_def Let_def case_prod_beta)

lemma sub_homa:
  "throttled_rpcs (homa (snd (homa_xmit_data_sub E V skb r))) = throttled_rpcs (homa V)"
  "throttle_min_bytes (homa (snd (homa_xmit_data_sub E V skb r))) = throttle_min_bytes (homa V)"
  "max_nic_queue_cycles (homa (snd (homa_xmit_data_sub E V skb r))) = max_nic_queue_cycles (homa V)"
  "flags (homa (snd (homa_xmit_data_sub E V skb r))) = flags (homa V)"
  "cycles_per_kbyte (homa (snd (homa_xmit_data_sub E V skb r))) = cycles_per_kbyte (homa V)"
  "rtt_bytes (homa (snd (homa_xmit_data_sub E V skb r))) = rtt_bytes (homa V)"
  by (simp_all add: homa_xmit_data_sub_def homa_update_idle_time_def Let_def case_prod_beta)

text \<open>The buffer as \<^verbatim>\<open>__homa_xmit_data\<close> hands it to \<^verbatim>\<open>ip_queue_xmit\<close>.\<close>

lemma sub_log:
  "\<exists>s. xmit_log (snd (homa_xmit_data_sub E V skb r)) = xmit_log V @ [s]
       \<and> h_offset (hdr s) = h_offset (hdr skb)
       \<and> h_retransmit (hdr s) = h_retransmit (hdr skb)
       \<and> h_message_length (hdr s) = h_message_length (hdr skb)
       \<and> h_cutoff_version (hdr s) = cutoff_version (peer (rpcs V r))
       \<and> vlan_tci s = vlan_tci skb"
  by (simp add: homa_xmit_data_sub_def homa_update_idle_time_def Let_def case_prod_beta
        skb_get_def skb_pull_def)

lemma clock_read_frame:
  "rpcs (xmit_clock_read W r) = rpcs W"
  "xmit_log (xmit_clock_read W r) = xmit_log W"
  "throttled_rpcs (homa (xmit_clock_read W r)) = throttled_rpcs (homa W)"
  "homa (xmit_clock_read W r) = homa W"
  by (simp_all add: xmit_clock_read_def)

lemma packet_rpcs_other:
  "a \<noteq> r \<Longrightarrow> rpcs (xmit_data_packet E W r) a = rpcs W a"
  by (simp add: xmit_data_packet_def Let_def case_prod_beta sub_rpcs)

lemma packet_msgout:
  "next_packet (msgout (rpcs (xmit_data_packet E W r) r)) = Suc (next_packet (msgout (rpcs W r)))"
  "next_offset (msgout (rpcs (xmit_data_packet E W r) r))
     = next_offset (msgout (rpcs W r)) + HOMA_MAX_DATA_PER_PACKET"
  "length_out (msgout (rpcs (xmit_data_packet E W r) r)) = length_out (msgout (rpcs W r))"
  "unscheduled (msgout (rpcs (xmit_data_packet E W r) r)) = unscheduled (msgout (rpcs W r))"
  "granted (msgout (rpcs (xmit_data_packet E W r) r)) = granted (msgout (rpcs W r))"
  "sched_priority (msgout (rpcs (xmit_data_packet E W r) r)) = sched_priority (msgout (rpcs W r))"
  "peer (rpcs (xmit_data_packet E W r) r) = peer (rpcs W r)"
  "length (packets (msgout (rpcs (xmit_data_packet E W r) r)))
     = length (packets (msgout (rpcs W r)))"
  by (simp_all add: xmit_data_packet_def Let_def case_prod_beta sub_rpcs)

lemma packet_packets_other:
  "j \<noteq> next_packet (msgout (rpcs W r)) \<Longrightarrow>
     packets (msgout (rpcs (xmit_data_packet E W r) r)) ! j = packets (msgout (rpcs W r)) ! j"
  by (simp add: xmit_data_packet_def Let_def case_prod_beta sub_rpcs)

lemma packet_shared:
  "skb_shared (packets (msgout (rpcs W r)) ! next_packet (msgout (rpcs W r))) \<Longrightarrow>
     packets (msgout (rpcs (xmit_data_packet E W r) r)) = packets (msgout (rpcs W r))
   \<and> xmit_log (xmit_data_packet E W r) = xmit_log W
   \<and> homa (xmit_data_packet E W r) = homa W"
  by (simp add: xmit_data_packet_def Let_def)

lemma packet_homa:
  "throttled_rpcs (homa (xmit_data_packet E W r)) = throttled_rpcs (homa W)"
  "throttle_min_bytes (homa (xmit_data_packet E W r)) = throttle_min_bytes (homa W)"
  "max_nic_queue_cycles (homa (xmit_data_packet E W r)) = max_nic_queue_cycles (homa W)"
  "flags (homa (xmit_data_packet E W r)) = flags (homa W)"
  by (simp_all add: xmit_data_packet_def Let_def case_prod_beta sub_homa)

lemma packet_log:
  assumes "\<not> skb_shared (packets (msgout (rpcs W r)) ! next_packet (msgout (rpcs W r)))"
  shows "\<exists>s. xmit_log (xmit_data_packet E W r) = xmit_log W @ [s]
       \<and> h_offset (hdr s)
           = h_offset (hdr (packets (msgout (rpcs W r)) ! next_packet (msgout (rpcs W r))))
       \<and> h_retransmit (hdr s) = 0
       \<and> h_cutoff_version (hdr s) = cutoff_version (peer (rpcs W r))
       \<and> vlan_tci s = tci_entry
           (if next_offset (msgout (rpcs W r)) < unscheduled (msgout (rpcs W r))
            then homa_unsched_priority E (peer (rpcs W r)) (length_out (msgout (rpcs W r)))
            else sched_priority (msgout (rpcs W r)))"
proof -
  let ?m = "msgout (rpcs W r)"
  let ?prio = "if next_offset ?m < unscheduled ?m
            then homa_unsched_priority E (peer (rpcs W r)) (length_out ?m)
            else sched_priority ?m"
  let ?skb = "(set_priority (packets ?m ! next_packet ?m) ?prio)
                \<lparr>hdr := (hdr (set_priority (packets ?m ! next_packet ?m) ?prio))\<lparr>h_retransmit := 0\<rparr>\<rparr>"
  let ?V = "W\<lparr>rpcs := (rpcs W)(r := (rpcs W r)\<lparr>msgout := ?m\<lparr>next_packet := Suc (next_packet ?m),
               next_offset := next_offset ?m + HOMA_MAX_DATA_PER_PACKET\<rparr>\<rparr>)\<rparr>"
  have e: "xmit_log (xmit_data_packet E W r) = xmit_log (snd (homa_xmit_data_sub E ?V ?skb r))"
    using assms by (simp add: xmit_data_packet_def Let_def case_prod_beta)
  from sub_log[of E ?V ?skb r] show ?thesis
    unfolding e by (auto simp: set_priority_def)
qed


lemma xmit_data_unfold:
  "homa_xmit_data E W r =
     (if next_offset (msgout (rpcs W r)) < granted (msgout (rpcs W r))
         \<and> next_packet (msgout (rpcs W r)) < length (packets (msgout (rpcs W r)))
      then
        (if xmit_throttle_check E W r then homa_add_to_throttled (xmit_clock_read W r) r
         else homa_xmit_data E (xmit_data_packet E (xmit_clock_read W r) r) r)
      else W)"
  by (rule homa_xmit_data.simps)

lemma step_msgout:
  "next_packet (msgout (rpcs (xmit_data_packet E (xmit_clock_read W r) r) r))
     = Suc (next_packet (msgout (rpcs W r)))"
  "next_offset (msgout (rpcs (xmit_data_packet E (xmit_clock_read W r) r) r))
     = next_offset (msgout (rpcs W r)) + HOMA_MAX_DATA_PER_PACKET"
  "length_out (msgout (rpcs (xmit_data_packet E (xmit_clock_read W r) r) r))
     = length_out (msgout (rpcs W r))"
  "unscheduled (msgout (rpcs (xmit_data_packet E (xmit_clock_read W r) r) r))
     = unscheduled (msgout (rpcs W r))"
  "granted (msgout (rpcs (xmit_data_packet E (xmit_clock_read W r) r) r))
     = granted (msgout (rpcs W r))"
  "sched_priority (msgout (rpcs (xmit_data_packet E (xmit_clock_read W r) r) r))
     = sched_priority (msgout (rpcs W r))"
  "peer (rpcs (xmit_data_packet E (xmit_clock_read W r) r) r) = peer (rpcs W r)"
  "length (packets (msgout (rpcs (xmit_data_packet E (xmit_clock_read W r) r) r)))
     = length (packets (msgout (rpcs W r)))"
  by (simp_all add: packet_msgout clock_read_frame)

lemma xmit_data_done:
  assumes "\<not> (next_offset (msgout (rpcs W r)) < granted (msgout (rpcs W r))
         \<and> next_packet (msgout (rpcs W r)) < length (packets (msgout (rpcs W r))))"
  shows "homa_xmit_data E W r = W"
  by (subst xmit_data_unfold) (simp only: assms if_False)

lemma xmit_data_throttled:
  "next_offset (msgout (rpcs W r)) < granted (msgout (rpcs W r))
     \<and> next_packet (msgout (rpcs W r)) < length (packets (msgout (rpcs W r))) \<Longrightarrow>
   xmit_throttle_check E W r \<Longrightarrow>
     homa_xmit_data E W r = homa_add_to_throttled (xmit_clock_read W r) r"
  by (subst xmit_data_unfold) simp

lemma xmit_data_step:
  "next_offset (msgout (rpcs W r)) < granted (msgout (rpcs W r))
     \<and> next_packet (msgout (rpcs W r)) < length (packets (msgout (rpcs W r))) \<Longrightarrow>
   \<not> xmit_throttle_check E W r \<Longrightarrow>
     homa_xmit_data E W r = homa_xmit_data E (xmit_data_packet E (xmit_clock_read W r) r) r"
  by (subst xmit_data_unfold) simp

lemma xmit_run_fields:
  "next_packet (msgout (rpcs W r)) \<le> next_packet (msgout (rpcs (homa_xmit_data E W r) r))
   \<and> next_offset (msgout (rpcs (homa_xmit_data E W r) r))
       = next_offset (msgout (rpcs W r))
         + HOMA_MAX_DATA_PER_PACKET
           * (int (next_packet (msgout (rpcs (homa_xmit_data E W r) r)))
              - int (next_packet (msgout (rpcs W r))))
   \<and> length (packets (msgout (rpcs (homa_xmit_data E W r) r)))
       = length (packets (msgout (rpcs W r)))
   \<and> length_out (msgout (rpcs (homa_xmit_data E W r) r)) = length_out (msgout (rpcs W r))
   \<and> unscheduled (msgout (rpcs (homa_xmit_data E W r) r)) = unscheduled (msgout (rpcs W r))
   \<and> granted (msgout (rpcs (homa_xmit_data E W r) r)) = granted (msgout (rpcs W r))
   \<and> sched_priority (msgout (rpcs (homa_xmit_data E W r) r))
       = sched_priority (msgout (rpcs W r))
   \<and> peer (rpcs (homa_xmit_data E W r) r) = peer (rpcs W r)"
proof (induction E W r rule: homa_xmit_data.induct)
  case (1 E W r)
  let ?c = "next_offset (msgout (rpcs W r)) < granted (msgout (rpcs W r))
         \<and> next_packet (msgout (rpcs W r)) < length (packets (msgout (rpcs W r)))"
  show ?case
  proof (cases ?c)
    case False
    show ?thesis unfolding xmit_data_done[OF False] by simp
  next
    case c: True
    show ?thesis
    proof (cases "xmit_throttle_check E W r")
      case True
      show ?thesis unfolding xmit_data_throttled[OF c True]
        by (simp add: add_rpcs clock_read_frame)
    next
      case False
      from "1.IH"[OF c False] show ?thesis unfolding xmit_data_step[OF c False]
        by (simp add: step_msgout algebra_simps)
    qed
  qed
qed


lemma xmit_run_packets:
  "j < next_packet (msgout (rpcs W r))
     \<or> next_packet (msgout (rpcs (homa_xmit_data E W r) r)) \<le> j
     \<or> skb_shared (packets (msgout (rpcs W r)) ! j) \<Longrightarrow>
   packets (msgout (rpcs (homa_xmit_data E W r) r)) ! j = packets (msgout (rpcs W r)) ! j"
proof (induction E W r rule: homa_xmit_data.induct)
  case (1 E W r)
  let ?c = "next_offset (msgout (rpcs W r)) < granted (msgout (rpcs W r))
         \<and> next_packet (msgout (rpcs W r)) < length (packets (msgout (rpcs W r)))"
  show ?case
  proof (cases ?c)
    case False
    show ?thesis unfolding xmit_data_done[OF False] by simp
  next
    case c: True
    show ?thesis
    proof (cases "xmit_throttle_check E W r")
      case True
      show ?thesis unfolding xmit_data_throttled[OF c True]
        by (simp add: add_rpcs clock_read_frame)
    next
      case False
      let ?U = "xmit_clock_read W r"
      let ?V = "xmit_data_packet E ?U r"
      let ?i = "next_packet (msgout (rpcs W r))"
      note eq = xmit_data_step[OF c False]
      have u: "rpcs ?U = rpcs W" by (simp add: clock_read_frame)
      have mono: "Suc ?i \<le> next_packet (msgout (rpcs (homa_xmit_data E ?V r) r))"
        using xmit_run_fields[of ?V r E] by (simp add: step_msgout)
      show ?thesis
      proof (cases "j = ?i")
        case True
        with "1.prems" mono have sh: "skb_shared (packets (msgout (rpcs W r)) ! ?i)"
          unfolding eq by auto
        then have same: "packets (msgout (rpcs ?V r)) = packets (msgout (rpcs W r))"
          using packet_shared[of ?U r E] by (simp add: u)
        have "packets (msgout (rpcs (homa_xmit_data E ?V r) r)) ! j
                = packets (msgout (rpcs ?V r)) ! j"
          using True by (intro "1.IH"[OF c False]) (simp add: step_msgout)
        with same show ?thesis unfolding eq by simp
      next
        case ne: False
        have other: "packets (msgout (rpcs ?V r)) ! j = packets (msgout (rpcs W r)) ! j"
          using ne packet_packets_other[of j ?U r E] by (simp add: u)
        have "packets (msgout (rpcs (homa_xmit_data E ?V r) r)) ! j
                = packets (msgout (rpcs ?V r)) ! j"
          using "1.prems" ne unfolding eq
          by (intro "1.IH"[OF c False]) (auto simp: step_msgout other)
        with other show ?thesis unfolding eq by simp
      qed
    qed
  qed
qed

lemma xmit_run_other:
  "a \<noteq> r \<Longrightarrow> rpcs (homa_xmit_data E W r) a = rpcs W a"
proof (induction E W r rule: homa_xmit_data.induct)
  case (1 E W r)
  let ?c = "next_offset (msgout (rpcs W r)) < granted (msgout (rpcs W r))
         \<and> next_packet (msgout (rpcs W r)) < length (packets (msgout (rpcs W r)))"
  show ?case
  proof (cases ?c)
    case False
    show ?thesis unfolding xmit_data_done[OF False] by simp
  next
    case c: True
    show ?thesis
    proof (cases "xmit_throttle_check E W r")
      case True
      show ?thesis unfolding xmit_data_throttled[OF c True]
        by (simp add: add_rpcs clock_read_frame)
    next
      case False
      from "1.IH"[OF c False "1.prems"] "1.prems" show ?thesis
        unfolding xmit_data_step[OF c False]
        by (simp add: packet_rpcs_other clock_read_frame)
    qed
  qed
qed

text \<open>How the loop ends: with the window exhausted, or in the throttle branch.\<close>

lemma xmit_run_exit:
  "(granted (msgout (rpcs (homa_xmit_data E W r) r))
       \<le> next_offset (msgout (rpcs (homa_xmit_data E W r) r))
    \<or> length (packets (msgout (rpcs (homa_xmit_data E W r) r)))
       \<le> next_packet (msgout (rpcs (homa_xmit_data E W r) r)))
   \<or> (\<exists>V. next_offset (msgout (rpcs V r)) < granted (msgout (rpcs V r))
          \<and> next_packet (msgout (rpcs V r)) < length (packets (msgout (rpcs V r)))
          \<and> xmit_throttle_check E V r
          \<and> homa_xmit_data E W r = homa_add_to_throttled (xmit_clock_read V r) r)"
proof (induction E W r rule: homa_xmit_data.induct)
  case (1 E W r)
  let ?c = "next_offset (msgout (rpcs W r)) < granted (msgout (rpcs W r))
         \<and> next_packet (msgout (rpcs W r)) < length (packets (msgout (rpcs W r)))"
  show ?case
  proof (cases ?c)
    case False
    then show ?thesis unfolding xmit_data_done[OF False] by auto
  next
    case c: True
    show ?thesis
    proof (cases "xmit_throttle_check E W r")
      case True
      with c show ?thesis unfolding xmit_data_throttled[OF c True] by blast
    next
      case False
      from "1.IH"[OF c False] show ?thesis
        unfolding xmit_data_step[OF c False] .
    qed
  qed
qed

lemma xmit_run_throttled_set:
  "set (throttled_rpcs (homa (homa_xmit_data E W r)))
     \<subseteq> insert r (set (throttled_rpcs (homa W)))
   \<and> set (throttled_rpcs (homa W)) \<subseteq> set (throttled_rpcs (homa (homa_xmit_data E W r)))"
proof (induction E W r rule: homa_xmit_data.induct)
  case (1 E W r)
  let ?c = "next_offset (msgout (rpcs W r)) < granted (msgout (rpcs W r))
         \<and> next_packet (msgout (rpcs W r)) < length (packets (msgout (rpcs W r)))"
  show ?case
  proof (cases ?c)
    case False
    then show ?thesis unfolding xmit_data_done[OF False] by auto
  next
    case c: True
    show ?thesis
    proof (cases "xmit_throttle_check E W r")
      case True
      show ?thesis unfolding xmit_data_throttled[OF c True]
        by (auto simp: add_set clock_read_frame)
    next
      case False
      from "1.IH"[OF c False] show ?thesis
        unfolding xmit_data_step[OF c False]
        by (simp add: packet_homa clock_read_frame)
    qed
  qed
qed

lemma packet_packets:
  "\<exists>x. packets (msgout (rpcs (xmit_data_packet E W r) r))
         = (packets (msgout (rpcs W r)))[next_packet (msgout (rpcs W r)) := x]"
proof (cases "skb_shared (packets (msgout (rpcs W r)) ! next_packet (msgout (rpcs W r)))")
  case True
  then have "packets (msgout (rpcs (xmit_data_packet E W r) r))
      = (packets (msgout (rpcs W r)))[next_packet (msgout (rpcs W r))
           := packets (msgout (rpcs W r)) ! next_packet (msgout (rpcs W r))]"
    using packet_shared[of W r E] by simp
  then show ?thesis by blast
next
  case False
  then show ?thesis
    by (auto simp add: xmit_data_packet_def Let_def case_prod_beta sub_rpcs)
qed

lemma step_aligned:
  assumes "unsent_aligned (msgout (rpcs W r))"
  shows "unsent_aligned (msgout (rpcs (xmit_data_packet E (xmit_clock_read W r) r) r))"
proof -
  let ?U = "xmit_clock_read W r"
  let ?V = "xmit_data_packet E ?U r"
  have u: "rpcs ?U = rpcs W" by (simp add: clock_read_frame)
  show ?thesis
    unfolding unsent_aligned_def
  proof
    fix j assume "j \<in> {next_packet (msgout (rpcs ?V r)) ..< length (packets (msgout (rpcs ?V r)))}"
    then have j: "Suc (next_packet (msgout (rpcs W r))) \<le> j"
       "j < length (packets (msgout (rpcs W r)))"
      by (simp_all add: step_msgout)
    then have "packets (msgout (rpcs ?V r)) ! j = packets (msgout (rpcs W r)) ! j"
      using packet_packets_other[of j ?U r E] by (simp add: u)
    moreover from assms j have "h_offset (hdr (packets (msgout (rpcs W r)) ! j))
          = next_offset (msgout (rpcs W r))
            + (int j - int (next_packet (msgout (rpcs W r)))) * HOMA_MAX_DATA_PER_PACKET"
      by (simp add: unsent_aligned_def)
    ultimately show "h_offset (hdr (packets (msgout (rpcs ?V r)) ! j))
          = next_offset (msgout (rpcs ?V r))
            + (int j - int (next_packet (msgout (rpcs ?V r)))) * HOMA_MAX_DATA_PER_PACKET"
      by (simp add: step_msgout algebra_simps)
  qed
qed

lemma xmit_run_log:
  "unsent_aligned (msgout (rpcs W r)) \<Longrightarrow>
   unscheduled (msgout (rpcs W r)) = u \<Longrightarrow> peer (rpcs W r) = p \<Longrightarrow>
   length_out (msgout (rpcs W r)) = l \<Longrightarrow> sched_priority (msgout (rpcs W r)) = sp \<Longrightarrow>
   \<exists>new. xmit_log (homa_xmit_data E W r) = xmit_log W @ new
     \<and> list_all2
         (\<lambda>s q. h_offset (hdr s) = h_offset (hdr q) \<and> h_retransmit (hdr s) = 0
                \<and> vlan_tci s = tci_entry (if h_offset (hdr q) < u
                                           then homa_unsched_priority E p l else sp))
         new
         (filter (\<lambda>q. \<not> skb_shared q)
            (take (next_packet (msgout (rpcs (homa_xmit_data E W r) r))
                     - next_packet (msgout (rpcs W r)))
               (drop (next_packet (msgout (rpcs W r))) (packets (msgout (rpcs W r))))))"
proof (induction E W r rule: homa_xmit_data.induct)
  case (1 E W r)
  let ?c = "next_offset (msgout (rpcs W r)) < granted (msgout (rpcs W r))
         \<and> next_packet (msgout (rpcs W r)) < length (packets (msgout (rpcs W r)))"
  let ?R = "\<lambda>s q. h_offset (hdr s) = h_offset (hdr q) \<and> h_retransmit (hdr s) = 0
                \<and> vlan_tci s = tci_entry (if h_offset (hdr q) < u
                                           then homa_unsched_priority E p l else sp)"
  show ?case
  proof (cases ?c)
    case False
    show ?thesis unfolding xmit_data_done[OF False] by simp
  next
    case c: True
    show ?thesis
    proof (cases "xmit_throttle_check E W r")
      case True
      show ?thesis unfolding xmit_data_throttled[OF c True]
        by (simp add: add_rpcs clock_read_frame homa_add_to_throttled_def)
    next
      case False
      let ?U = "xmit_clock_read W r"
      let ?V = "xmit_data_packet E ?U r"
      let ?i = "next_packet (msgout (rpcs W r))"
      let ?ps = "packets (msgout (rpcs W r))"
      let ?n = "next_packet (msgout (rpcs (homa_xmit_data E ?V r) r))"
      note eq = xmit_data_step[OF c False]
      have u: "rpcs ?U = rpcs W" by (simp add: clock_read_frame)
      have ul: "xmit_log ?U = xmit_log W" by (simp add: clock_read_frame)
      have mono: "Suc ?i \<le> ?n"
        using xmit_run_fields[of ?V r E] by (simp add: step_msgout)
      have al: "unsent_aligned (msgout (rpcs ?V r))"
        using "1.prems"(1) by (rule step_aligned)
      from "1.IH"[OF c False al] "1.prems"
      obtain new' where n1: "xmit_log (homa_xmit_data E ?V r) = xmit_log ?V @ new'"
        and n2: "list_all2 ?R new'
           (filter (\<lambda>q. \<not> skb_shared q)
             (take (?n - Suc ?i) (drop (Suc ?i) (packets (msgout (rpcs ?V r))))))"
        by (auto simp: step_msgout)
      from packet_packets[of E ?U r] obtain x where
        "packets (msgout (rpcs ?V r)) = ?ps[?i := x]" by (auto simp: u)
      then have dr: "drop (Suc ?i) (packets (msgout (rpcs ?V r))) = drop (Suc ?i) ?ps"
        by simp
      from c have ilt: "?i < length ?ps" by simp
      have win: "take (?n - ?i) (drop ?i ?ps) = ?ps ! ?i # take (?n - Suc ?i) (drop (Suc ?i) ?ps)"
      proof -
        from mono have "?n - ?i = Suc (?n - Suc ?i)" by simp
        moreover from ilt have "drop ?i ?ps = ?ps ! ?i # drop (Suc ?i) ?ps"
          by (simp add: Cons_nth_drop_Suc)
        ultimately show ?thesis by simp
      qed
      show ?thesis
      proof (cases "skb_shared (?ps ! ?i)")
        case True
        then have "xmit_log ?V = xmit_log W"
          using packet_shared[of ?U r E] by (simp add: u ul)
        with n1 n2 True show ?thesis
          unfolding eq win by (simp add: dr)
      next
        case ns: False
        from "1.prems"(1) ilt have off: "h_offset (hdr (?ps ! ?i)) = next_offset (msgout (rpcs W r))"
          by (simp add: unsent_aligned_def)
        from packet_log[of ?U r E] ns obtain s where
          s1: "xmit_log ?V = xmit_log W @ [s]" and
          s2: "h_offset (hdr s) = h_offset (hdr (?ps ! ?i))" and
          s3: "h_retransmit (hdr s) = 0" and
          s4: "vlan_tci s = tci_entry
           (if next_offset (msgout (rpcs W r)) < unscheduled (msgout (rpcs W r))
            then homa_unsched_priority E (peer (rpcs W r)) (length_out (msgout (rpcs W r)))
            else sched_priority (msgout (rpcs W r)))"
          by (auto simp: u ul)
        from s2 s3 s4 off "1.prems" have "?R s (?ps ! ?i)" by simp
        with n2 have "list_all2 ?R (s # new')
           (filter (\<lambda>q. \<not> skb_shared q) (take (?n - ?i) (drop ?i ?ps)))"
          unfolding win using ns by (simp add: dr)
        moreover have "xmit_log (homa_xmit_data E ?V r) = xmit_log W @ (s # new')"
          using n1 s1 by simp
        ultimately show ?thesis unfolding eq by blast
      qed
    qed
  qed
qed

lemma list_all2_left:
  "list_all2 R xs ys \<Longrightarrow> x \<in> set xs \<Longrightarrow> \<exists>y. y \<in> set ys \<and> R x y"
  by (induction rule: list_all2_induct) auto

lemma xmit_run_log_prefix:
  "\<exists>new. xmit_log (homa_xmit_data E W r) = xmit_log W @ new"
proof (induction E W r rule: homa_xmit_data.induct)
  case (1 E W r)
  let ?c = "next_offset (msgout (rpcs W r)) < granted (msgout (rpcs W r))
         \<and> next_packet (msgout (rpcs W r)) < length (packets (msgout (rpcs W r)))"
  show ?case
  proof (cases ?c)
    case False
    show ?thesis unfolding xmit_data_done[OF False] by simp
  next
    case c: True
    show ?thesis
    proof (cases "xmit_throttle_check E W r")
      case True
      show ?thesis unfolding xmit_data_throttled[OF c True]
        by (simp add: clock_read_frame homa_add_to_throttled_def)
    next
      case False
      let ?U = "xmit_clock_read W r"
      let ?V = "xmit_data_packet E ?U r"
      have "\<exists>new. xmit_log ?V = xmit_log W @ new"
      proof (cases "skb_shared (packets (msgout (rpcs ?U r)) ! next_packet (msgout (rpcs ?U r)))")
        case True
        then show ?thesis using packet_shared[of ?U r E] by (simp add: clock_read_frame)
      next
        case False
        from packet_log[OF False, of E] show ?thesis by (auto simp: clock_read_frame)
      qed
      with "1.IH"[OF c False] show ?thesis
        unfolding xmit_data_step[OF c False] by auto
    qed
  qed
qed

lemma xmit_run_small:
  "length_out (msgout (rpcs W r)) - next_offset (msgout (rpcs W r)) \<le> throttle_min_bytes (homa W)
   \<Longrightarrow> throttled_rpcs (homa (homa_xmit_data E W r)) = throttled_rpcs (homa W)
     \<and> (granted (msgout (rpcs (homa_xmit_data E W r) r))
           \<le> next_offset (msgout (rpcs (homa_xmit_data E W r) r))
        \<or> length (packets (msgout (rpcs (homa_xmit_data E W r) r)))
           \<le> next_packet (msgout (rpcs (homa_xmit_data E W r) r)))"
proof (induction E W r rule: homa_xmit_data.induct)
  case (1 E W r)
  let ?c = "next_offset (msgout (rpcs W r)) < granted (msgout (rpcs W r))
         \<and> next_packet (msgout (rpcs W r)) < length (packets (msgout (rpcs W r)))"
  show ?case
  proof (cases ?c)
    case False
    then show ?thesis unfolding xmit_data_done[OF False] by auto
  next
    case c: True
    from "1.prems" have nt: "\<not> xmit_throttle_check E W r"
      by (simp add: xmit_throttle_check_def)
    let ?V = "xmit_data_packet E (xmit_clock_read W r) r"
    have "length_out (msgout (rpcs ?V r)) - next_offset (msgout (rpcs ?V r))
            \<le> throttle_min_bytes (homa ?V)"
      using "1.prems"
      by (simp add: step_msgout packet_homa clock_read_frame HOMA_MAX_DATA_PER_PACKET_def)
    from "1.IH"[OF c nt this] show ?thesis
      unfolding xmit_data_step[OF c nt] by (simp add: packet_homa clock_read_frame)
  qed
qed

lemma xmit_run_bound:
  "next_packet (msgout (rpcs W r)) \<le> length (packets (msgout (rpcs W r))) \<Longrightarrow>
     next_packet (msgout (rpcs (homa_xmit_data E W r) r)) \<le> length (packets (msgout (rpcs W r)))"
proof (induction E W r rule: homa_xmit_data.induct)
  case (1 E W r)
  let ?c = "next_offset (msgout (rpcs W r)) < granted (msgout (rpcs W r))
         \<and> next_packet (msgout (rpcs W r)) < length (packets (msgout (rpcs W r)))"
  show ?case
  proof (cases ?c)
    case False
    with "1.prems" show ?thesis unfolding xmit_data_done[OF False] by simp
  next
    case c: True
    show ?thesis
    proof (cases "xmit_throttle_check E W r")
      case True
      with "1.prems" show ?thesis unfolding xmit_data_throttled[OF c True]
        by (simp add: add_rpcs clock_read_frame)
    next
      case False
      from c have "next_packet (msgout (rpcs (xmit_data_packet E (xmit_clock_read W r) r) r))
          \<le> length (packets (msgout (rpcs (xmit_data_packet E (xmit_clock_read W r) r) r)))"
        by (simp add: step_msgout)
      from "1.IH"[OF c False this] show ?thesis
        unfolding xmit_data_step[OF c False] by (simp add: step_msgout)
    qed
  qed
qed

lemma prio_run:
  "map (\<lambda>s. (h_offset (hdr s), vlan_tci s)) (xmit_log (homa_xmit_data test_env prio_world 1))
     = [(0, tci_entry 6), (1400, tci_entry 6), (2800, tci_entry 2), (4200, tci_entry 2)]"
  by (simp add: prio_world_def test_defs homa_xmit_data.simps)

lemma small_run:
  "map (\<lambda>s. h_offset (hdr s)) (xmit_log (homa_xmit_data test_env (throttle_world 200) 1)) = [0]
   \<and> next_offset (msgout (rpcs (homa_xmit_data test_env (throttle_world 200) 1) 1)) = 1400
   \<and> granted (msgout (rpcs (homa_xmit_data test_env (throttle_world 200) 1) 1)) = 200"
  by (simp add: throttle_world_def test_defs homa_xmit_data.simps)

lemma small_world:
  "length_out (msgout (rpcs (throttle_world 200) (Suc 0))) = 200"
  "next_offset (msgout (rpcs (throttle_world 200) (Suc 0))) = 0"
  "throttle_min_bytes (homa (throttle_world 200)) = 200"
  "throttled_rpcs (homa (throttle_world 200)) = []"
  by (simp_all add: throttle_world_def test_world_def test_homa_def test_rpc_fields)

text \<open>The throttled run of the unit test: two packets are passed, then the check holds.\<close>

lemma throttle_world_2_fields:
  "next_offset (msgout (rpcs throttle_world_2 1)) = 2800"
  "granted (msgout (rpcs throttle_world_2 1)) = 6000"
  "next_packet (msgout (rpcs throttle_world_2 1)) = 2"
  "length (packets (msgout (rpcs throttle_world_2 1))) = 5"
  "length_out (msgout (rpcs throttle_world_2 1)) = 6000"
  "throttle_min_bytes (homa throttle_world_2) = 200"
  "max_nic_queue_cycles (homa throttle_world_2) = 3000"
  "link_idle_time (homa throttle_world_2) = 14064"
  "flags (homa throttle_world_2) = 0"
  "map (\<lambda>s. h_offset (hdr s)) (xmit_log throttle_world_2) = [0, 1400]"
  by (simp_all add: throttle_world_2_def throttle_world_def test_defs)

lemma throttle_steps:
  "homa_xmit_data test_env (throttle_world 6000) 1 = homa_xmit_data test_env throttle_world_2 1"
proof -
  let ?W0 = "throttle_world 6000"
  let ?W1 = "xmit_data_packet test_env (xmit_clock_read ?W0 1) 1"
  have c0: "next_offset (msgout (rpcs ?W0 1)) < granted (msgout (rpcs ?W0 1))
            \<and> next_packet (msgout (rpcs ?W0 1)) < length (packets (msgout (rpcs ?W0 1)))"
    by (simp add: throttle_world_def test_defs)
  have n0: "\<not> xmit_throttle_check test_env ?W0 1"
    by (simp add: throttle_world_def test_defs)
  have c1: "next_offset (msgout (rpcs ?W1 1)) < granted (msgout (rpcs ?W1 1))
            \<and> next_packet (msgout (rpcs ?W1 1)) < length (packets (msgout (rpcs ?W1 1)))"
    by (simp add: throttle_world_def test_defs)
  have n1: "\<not> xmit_throttle_check test_env ?W1 1"
    by (simp add: throttle_world_def test_defs)
  show ?thesis
    unfolding throttle_world_2_def xmit_data_step[OF c0 n0] xmit_data_step[OF c1 n1] ..
qed

text \<open>The run over a message whose first buffer is shared.\<close>

lemma shared_world_fields:
  "next_offset (msgout (rpcs shared_world 1)) = 0"
  "next_packet (msgout (rpcs shared_world 1)) = 0"
  "granted (msgout (rpcs shared_world 1)) = 5000"
  "length_out (msgout (rpcs shared_world 1)) = 5000"
  "length (packets (msgout (rpcs shared_world 1))) = 4"
  "skb_shared (packets (msgout (rpcs shared_world 1)) ! 0)"
  "\<not> xmit_throttle_check test_env shared_world 1"
  "xmit_log shared_world = []"
  by (simp_all add: shared_world_def test_defs)

lemma shared_run:
  "map (\<lambda>s. h_offset (hdr s)) (xmit_log (homa_xmit_data test_env shared_world 1))
     = [1400, 2800, 4200]
   \<and> next_packet (msgout (rpcs (homa_xmit_data test_env shared_world 1) 1)) = 4
   \<and> length (packets (msgout (rpcs (homa_xmit_data test_env shared_world 1) 1))) = 4"
  by (simp add: shared_world_def test_defs homa_xmit_data.simps)

text \<open>
  Claim C3. At the head of an iteration of the loop of \<^verbatim>\<open>homa_xmit_data\<close> (the loop condition
  holds), if the bytes left, \<open>length - next_offset\<close>, exceed \<open>throttle_min_bytes\<close>, and
  \<open>now + max_nic_queue_cycles < link_idle_time\<close> in the 64-bit arithmetic of the code, and
  \<^verbatim>\<open>HOMA_FLAG_DONT_THROTTLE\<close> is not set, then the function returns what
  \<^verbatim>\<open>homa_add_to_throttled\<close> returns: the RPC is on the throttled list, no packet was handed
  to IP and no RPC was changed. A message with at most \<open>throttle_min_bytes\<close> bytes left is
  never enqueued: the call leaves the throttled list as it was and returns with the
  granted window or the packet list exhausted, and the packet at \<open>next_packet\<close>, when the
  loop condition holds and its buffer is not shared, is handed to IP at once.
\<close>

theorem xmit_data_throttle:
  "(next_offset (msgout (rpcs W r)) < granted (msgout (rpcs W r))
      \<and> next_packet (msgout (rpcs W r)) < length (packets (msgout (rpcs W r)))
      \<and> length_out (msgout (rpcs W r)) - next_offset (msgout (rpcs W r))
           > throttle_min_bytes (homa W)
      \<and> get_cycles E (cycle_reads W) + word_of_int (max_nic_queue_cycles (homa W))
           < link_idle_time (homa W)
      \<and> flags (homa W) AND HOMA_FLAG_DONT_THROTTLE E = 0
    \<longrightarrow> homa_xmit_data E W r = homa_add_to_throttled (xmit_clock_read W r) r
        \<and> r \<in> set (throttled_rpcs (homa (homa_xmit_data E W r)))
        \<and> xmit_log (homa_xmit_data E W r) = xmit_log W
        \<and> rpcs (homa_xmit_data E W r) = rpcs W)
   \<and> (length_out (msgout (rpcs V r)) - next_offset (msgout (rpcs V r))
         \<le> throttle_min_bytes (homa V)
    \<longrightarrow> throttled_rpcs (homa (homa_xmit_data E V r)) = throttled_rpcs (homa V)
        \<and> (granted (msgout (rpcs (homa_xmit_data E V r) r))
              \<le> next_offset (msgout (rpcs (homa_xmit_data E V r) r))
           \<or> length (packets (msgout (rpcs (homa_xmit_data E V r) r)))
              \<le> next_packet (msgout (rpcs (homa_xmit_data E V r) r)))
        \<and> (next_offset (msgout (rpcs V r)) < granted (msgout (rpcs V r))
            \<and> next_packet (msgout (rpcs V r)) < length (packets (msgout (rpcs V r)))
            \<and> \<not> skb_shared (packets (msgout (rpcs V r)) ! next_packet (msgout (rpcs V r)))
          \<longrightarrow> (\<exists>s rest. xmit_log (homa_xmit_data E V r) = xmit_log V @ s # rest
                 \<and> h_offset (hdr s)
                     = h_offset (hdr (packets (msgout (rpcs V r))
                                       ! next_packet (msgout (rpcs V r)))))))"
proof (intro conjI impI)
  assume a: "next_offset (msgout (rpcs W r)) < granted (msgout (rpcs W r))
      \<and> next_packet (msgout (rpcs W r)) < length (packets (msgout (rpcs W r)))
      \<and> length_out (msgout (rpcs W r)) - next_offset (msgout (rpcs W r))
           > throttle_min_bytes (homa W)
      \<and> get_cycles E (cycle_reads W) + word_of_int (max_nic_queue_cycles (homa W))
           < link_idle_time (homa W)
      \<and> flags (homa W) AND HOMA_FLAG_DONT_THROTTLE E = 0"
  then have c: "next_offset (msgout (rpcs W r)) < granted (msgout (rpcs W r))
      \<and> next_packet (msgout (rpcs W r)) < length (packets (msgout (rpcs W r)))"
    and t: "xmit_throttle_check E W r"
    by (simp_all add: xmit_throttle_check_def)
  note eq = xmit_data_throttled[OF c t]
  show "homa_xmit_data E W r = homa_add_to_throttled (xmit_clock_read W r) r" by (rule eq)
  show "r \<in> set (throttled_rpcs (homa (homa_xmit_data E W r)))"
    unfolding eq by (simp add: add_set)
  show "xmit_log (homa_xmit_data E W r) = xmit_log W"
    unfolding eq by (simp add: homa_add_to_throttled_def clock_read_frame)
  show "rpcs (homa_xmit_data E W r) = rpcs W"
    unfolding eq by (simp add: add_rpcs clock_read_frame)
next
  assume s: "length_out (msgout (rpcs V r)) - next_offset (msgout (rpcs V r))
         \<le> throttle_min_bytes (homa V)"
  note sm = xmit_run_small[OF s, of E]
  from sm show "throttled_rpcs (homa (homa_xmit_data E V r)) = throttled_rpcs (homa V)"
    by blast
  from sm show "granted (msgout (rpcs (homa_xmit_data E V r) r))
              \<le> next_offset (msgout (rpcs (homa_xmit_data E V r) r))
           \<or> length (packets (msgout (rpcs (homa_xmit_data E V r) r)))
              \<le> next_packet (msgout (rpcs (homa_xmit_data E V r) r))"
    by blast
  assume b: "next_offset (msgout (rpcs V r)) < granted (msgout (rpcs V r))
            \<and> next_packet (msgout (rpcs V r)) < length (packets (msgout (rpcs V r)))
            \<and> \<not> skb_shared (packets (msgout (rpcs V r)) ! next_packet (msgout (rpcs V r)))"
  then have c: "next_offset (msgout (rpcs V r)) < granted (msgout (rpcs V r))
            \<and> next_packet (msgout (rpcs V r)) < length (packets (msgout (rpcs V r)))"
    by simp
  from s have nt: "\<not> xmit_throttle_check E V r" by (simp add: xmit_throttle_check_def)
  let ?U = "xmit_clock_read V r"
  let ?V1 = "xmit_data_packet E ?U r"
  from b have "\<not> skb_shared (packets (msgout (rpcs ?U r)) ! next_packet (msgout (rpcs ?U r)))"
    by (simp add: clock_read_frame)
  from packet_log[OF this, of E] obtain s where
    s1: "xmit_log ?V1 = xmit_log V @ [s]" and
    s2: "h_offset (hdr s)
           = h_offset (hdr (packets (msgout (rpcs V r)) ! next_packet (msgout (rpcs V r))))"
    by (auto simp: clock_read_frame)
  from xmit_run_log_prefix[of E ?V1 r] obtain new where
    "xmit_log (homa_xmit_data E ?V1 r) = xmit_log ?V1 @ new" by blast
  with s1 have "xmit_log (homa_xmit_data E V r) = xmit_log V @ s # new"
    unfolding xmit_data_step[OF c nt] by simp
  with s2 show "\<exists>s rest. xmit_log (homa_xmit_data E V r) = xmit_log V @ s # rest
                 \<and> h_offset (hdr s)
                     = h_offset (hdr (packets (msgout (rpcs V r))
                                       ! next_packet (msgout (rpcs V r))))"
    by blast
qed

text \<open>
  The scenarios of the unit tests. With the link busy until 11000, a NIC queue limit of
  3000 cycles and the clock at 10000, the message of 6000 bytes passes the packets at 0
  and 1400; the third iteration starts at \<open>throttle_world_2\<close>, where the link is busy until
  14064, and enqueues the RPC with \<open>next_offset = 2800\<close>. The message of 200 bytes sends
  its packet and the throttled list stays empty.
\<close>

theorem xmit_data_throttle_witness:
  "next_offset (msgout (rpcs throttle_world_2 1)) = 2800
   \<and> granted (msgout (rpcs throttle_world_2 1)) = 6000
   \<and> link_idle_time (homa throttle_world_2) = 14064
   \<and> homa_xmit_data test_env (throttle_world 6000) 1
       = homa_add_to_throttled (xmit_clock_read throttle_world_2 1) 1
   \<and> 1 \<in> set (throttled_rpcs (homa (homa_xmit_data test_env (throttle_world 6000) 1)))
   \<and> map (\<lambda>s. h_offset (hdr s)) (xmit_log (homa_xmit_data test_env (throttle_world 6000) 1))
       = [0, 1400]
   \<and> next_offset (msgout (rpcs (homa_xmit_data test_env (throttle_world 6000) 1) 1)) = 2800
   \<and> throttled_rpcs (homa (homa_xmit_data test_env (throttle_world 200) 1)) = []
   \<and> map (\<lambda>s. h_offset (hdr s)) (xmit_log (homa_xmit_data test_env (throttle_world 200) 1))
       = [0]"
proof -
  note f = throttle_world_2_fields
  have e: "get_cycles test_env (cycle_reads throttle_world_2) = 10000"
    "HOMA_FLAG_DONT_THROTTLE test_env = 2"
    by (simp_all add: test_env_def)
  have p1: "next_offset (msgout (rpcs throttle_world_2 1)) < granted (msgout (rpcs throttle_world_2 1))
      \<and> next_packet (msgout (rpcs throttle_world_2 1))
           < length (packets (msgout (rpcs throttle_world_2 1)))
      \<and> length_out (msgout (rpcs throttle_world_2 1)) - next_offset (msgout (rpcs throttle_world_2 1))
           > throttle_min_bytes (homa throttle_world_2)
      \<and> get_cycles test_env (cycle_reads throttle_world_2)
           + word_of_int (max_nic_queue_cycles (homa throttle_world_2))
           < link_idle_time (homa throttle_world_2)
      \<and> flags (homa throttle_world_2) AND HOMA_FLAG_DONT_THROTTLE test_env = 0"
    unfolding f e by simp
  have p2: "length_out (msgout (rpcs (throttle_world 200) 1))
              - next_offset (msgout (rpcs (throttle_world 200) 1))
            \<le> throttle_min_bytes (homa (throttle_world 200))"
    using small_world by simp
  note t = xmit_data_throttle[of throttle_world_2 1 test_env "throttle_world 200"]
  from t p1 have q1: "homa_xmit_data test_env throttle_world_2 1
                        = homa_add_to_throttled (xmit_clock_read throttle_world_2 1) 1"
    and q2: "1 \<in> set (throttled_rpcs (homa (homa_xmit_data test_env throttle_world_2 1)))"
    and q3: "xmit_log (homa_xmit_data test_env throttle_world_2 1) = xmit_log throttle_world_2"
    and q4: "rpcs (homa_xmit_data test_env throttle_world_2 1) = rpcs throttle_world_2"
    by blast+
  from t p2 have s1: "throttled_rpcs (homa (homa_xmit_data test_env (throttle_world 200) 1))
                        = throttled_rpcs (homa (throttle_world 200))"
    by blast
  have a: "homa_xmit_data test_env (throttle_world 6000) 1
             = homa_add_to_throttled (xmit_clock_read throttle_world_2 1) 1"
    unfolding throttle_steps by (rule q1)
  have b: "1 \<in> set (throttled_rpcs (homa (homa_xmit_data test_env (throttle_world 6000) 1)))"
    unfolding throttle_steps by (rule q2)
  have c: "map (\<lambda>s. h_offset (hdr s)) (xmit_log (homa_xmit_data test_env (throttle_world 6000) 1))
             = [0, 1400]"
    unfolding throttle_steps q3 by (rule f)
  have d: "next_offset (msgout (rpcs (homa_xmit_data test_env (throttle_world 6000) 1) 1)) = 2800"
    unfolding throttle_steps q4 by (rule f)
  have g: "throttled_rpcs (homa (homa_xmit_data test_env (throttle_world 200) 1)) = []"
    unfolding s1 using small_world by simp
  from small_run
  have h: "map (\<lambda>s. h_offset (hdr s)) (xmit_log (homa_xmit_data test_env (throttle_world 200) 1))
             = [0]"
    by blast
  from f(1) f(2) f(8) a b c d g h show ?thesis by blast
qed

text \<open>
  Claim C4. Let the unsent packets lie where the send pointer expects them. Every
  packet that \<^verbatim>\<open>homa_xmit_data\<close> hands to IP has \<open>retransmit = 0\<close> and carries the tag of the
  priority \<open>homa_unsched_priority peer length\<close> when its offset is less than \<open>unscheduled\<close>,
  and of \<open>sched_priority\<close> otherwise.
\<close>

theorem xmit_data_priority:
  "unsent_aligned (msgout (rpcs W r)) \<longrightarrow>
     (\<forall>s \<in> set (drop (length (xmit_log W)) (xmit_log (homa_xmit_data E W r))).
        h_retransmit (hdr s) = 0
      \<and> vlan_tci s = tci_entry
          (if h_offset (hdr s) < unscheduled (msgout (rpcs W r))
           then homa_unsched_priority E (peer (rpcs W r)) (length_out (msgout (rpcs W r)))
           else sched_priority (msgout (rpcs W r))))"
proof
  assume al: "unsent_aligned (msgout (rpcs W r))"
  let ?R = "\<lambda>s q. h_offset (hdr s) = h_offset (hdr q) \<and> h_retransmit (hdr s) = 0
     \<and> vlan_tci s = tci_entry (if h_offset (hdr q) < unscheduled (msgout (rpcs W r))
           then homa_unsched_priority E (peer (rpcs W r)) (length_out (msgout (rpcs W r)))
           else sched_priority (msgout (rpcs W r)))"
  let ?qs = "filter (\<lambda>q. \<not> skb_shared q)
            (take (next_packet (msgout (rpcs (homa_xmit_data E W r) r))
                     - next_packet (msgout (rpcs W r)))
               (drop (next_packet (msgout (rpcs W r))) (packets (msgout (rpcs W r)))))"
  from xmit_run_log[OF al refl refl refl refl, of E] obtain new where
    n1: "xmit_log (homa_xmit_data E W r) = xmit_log W @ new" and
    n2: "list_all2 ?R new ?qs"
    by blast
  show "\<forall>s \<in> set (drop (length (xmit_log W)) (xmit_log (homa_xmit_data E W r))).
        h_retransmit (hdr s) = 0
      \<and> vlan_tci s = tci_entry
          (if h_offset (hdr s) < unscheduled (msgout (rpcs W r))
           then homa_unsched_priority E (peer (rpcs W r)) (length_out (msgout (rpcs W r)))
           else sched_priority (msgout (rpcs W r)))"
  proof
    fix s assume "s \<in> set (drop (length (xmit_log W)) (xmit_log (homa_xmit_data E W r)))"
    then have "s \<in> set new" by (simp add: n1)
    from list_all2_left[OF n2 this] show "h_retransmit (hdr s) = 0
      \<and> vlan_tci s = tci_entry
          (if h_offset (hdr s) < unscheduled (msgout (rpcs W r))
           then homa_unsched_priority E (peer (rpcs W r)) (length_out (msgout (rpcs W r)))
           else sched_priority (msgout (rpcs W r)))"
      by auto
  qed
qed

text \<open>
  The scenario of the unit test: 6000 bytes, \<open>unscheduled = 2000\<close>, \<open>sched_priority = 2\<close>, and
  a peer whose cutoffs give priority 6. The sends are P6 at 0, P6 at 1400, P2 at 2800
  and P2 at 4200.
\<close>

theorem xmit_data_priority_witness:
  "unsent_aligned (msgout (rpcs prio_world 1))
   \<and> map (\<lambda>s. (h_offset (hdr s), vlan_tci s)) (xmit_log (homa_xmit_data test_env prio_world 1))
       = [(0, tci_entry 6), (1400, tci_entry 6), (2800, tci_entry 2), (4200, tci_entry 2)]
   \<and> list_all (\<lambda>s. h_retransmit (hdr s) = 0
                   \<and> vlan_tci s = tci_entry (if h_offset (hdr s) < 2000 then 6 else 2))
        (xmit_log (homa_xmit_data test_env prio_world 1))"
proof -
  have m: "msgout (rpcs prio_world (Suc 0)) = (msgout (test_rpc 6000))
         \<lparr>sched_priority := 2, unscheduled := 2000, granted := 5000\<rparr>"
    and p: "peer (rpcs prio_world (Suc 0)) = test_peer"
    and l: "xmit_log prio_world = []"
    by (simp_all add: prio_world_def test_world_def test_rpc_def)
  have a: "unsent_aligned (msgout (rpcs prio_world 1))"
    using test_rpc_aligned(1)[of 6000] by (simp add: m unsent_aligned_def)
  from xmit_data_priority[of prio_world 1 test_env] a
  have "\<forall>s \<in> set (xmit_log (homa_xmit_data test_env prio_world 1)).
          h_retransmit (hdr s) = 0
        \<and> vlan_tci s = tci_entry (if h_offset (hdr s) < 2000 then 6 else 2)"
    by (simp add: m p l test_rpc_fields test_env_def)
  then have "list_all (\<lambda>s. h_retransmit (hdr s) = 0
                   \<and> vlan_tci s = tci_entry (if h_offset (hdr s) < 2000 then 6 else 2))
        (xmit_log (homa_xmit_data test_env prio_world 1))"
    by (simp add: list_all_iff)
  with a prio_run show ?thesis by blast
qed

text \<open>
  Claim C5. An iteration that passes the throttle check advances \<open>next_offset\<close> by exactly
  \<^verbatim>\<open>HOMA_MAX_DATA_PER_PACKET\<close> and \<open>next_packet\<close> by one packet, whatever the size of the
  packet; when the buffer is shared the packet list and the log of sent packets stay as
  they are (the packet is neither retagged nor sent), and the pointer advances all the
  same. Over a whole call \<open>next_offset\<close> grows by \<^verbatim>\<open>HOMA_MAX_DATA_PER_PACKET\<close> for every packet
  passed, and no shared buffer is changed. So when a message of
  \<open>\<lceil>length / HOMA_MAX_DATA_PER_PACKET\<rceil>\<close> packets is sent from the start until \<open>next_packet\<close>
  is null, \<open>next_offset\<close> ends at \<open>\<lceil>length / HOMA_MAX_DATA_PER_PACKET\<rceil> * HOMA_MAX_DATA_PER_PACKET\<close>.
\<close>

theorem xmit_data_advance:
  "(let m = msgout (rpcs W r);
        V = xmit_data_packet E (xmit_clock_read W r) r;
        m' = msgout (rpcs (homa_xmit_data E W r) r)
    in (next_offset m < granted m \<and> next_packet m < length (packets m)
          \<and> \<not> xmit_throttle_check E W r \<longrightarrow>
            homa_xmit_data E W r = homa_xmit_data E V r
          \<and> next_offset (msgout (rpcs V r)) = next_offset m + HOMA_MAX_DATA_PER_PACKET
          \<and> next_packet (msgout (rpcs V r)) = Suc (next_packet m)
          \<and> (skb_shared (packets m ! next_packet m) \<longrightarrow>
                packets (msgout (rpcs V r)) = packets m \<and> xmit_log V = xmit_log W))
       \<and> next_offset m'
            = next_offset m
              + HOMA_MAX_DATA_PER_PACKET * (int (next_packet m') - int (next_packet m))
       \<and> (\<forall>j. skb_shared (packets m ! j) \<longrightarrow> packets m' ! j = packets m ! j)
       \<and> (next_offset m = 0 \<and> next_packet m = 0 \<and> length (packets m') \<le> next_packet m'
            \<and> int (length (packets m))
                 = (length_out m + HOMA_MAX_DATA_PER_PACKET - 1) div HOMA_MAX_DATA_PER_PACKET
          \<longrightarrow> next_offset m'
                 = (length_out m + HOMA_MAX_DATA_PER_PACKET - 1) div HOMA_MAX_DATA_PER_PACKET
                   * HOMA_MAX_DATA_PER_PACKET))"
proof -
  define m where "m = msgout (rpcs W r)"
  define V where "V = xmit_data_packet E (xmit_clock_read W r) r"
  define m' where "m' = msgout (rpcs (homa_xmit_data E W r) r)"
  have step: "next_offset m < granted m \<and> next_packet m < length (packets m)
          \<and> \<not> xmit_throttle_check E W r \<longrightarrow>
            homa_xmit_data E W r = homa_xmit_data E V r
          \<and> next_offset (msgout (rpcs V r)) = next_offset m + HOMA_MAX_DATA_PER_PACKET
          \<and> next_packet (msgout (rpcs V r)) = Suc (next_packet m)
          \<and> (skb_shared (packets m ! next_packet m) \<longrightarrow>
                packets (msgout (rpcs V r)) = packets m \<and> xmit_log V = xmit_log W)"
  proof (intro impI conjI)
    assume a: "next_offset m < granted m \<and> next_packet m < length (packets m)
          \<and> \<not> xmit_throttle_check E W r"
    then have c: "next_offset (msgout (rpcs W r)) < granted (msgout (rpcs W r))
         \<and> next_packet (msgout (rpcs W r)) < length (packets (msgout (rpcs W r)))"
      and nt: "\<not> xmit_throttle_check E W r" by (simp_all add: m_def)
    show "homa_xmit_data E W r = homa_xmit_data E V r"
      unfolding V_def by (rule xmit_data_step[OF c nt])
    show "next_offset (msgout (rpcs V r)) = next_offset m + HOMA_MAX_DATA_PER_PACKET"
      by (simp add: V_def m_def step_msgout)
    show "next_packet (msgout (rpcs V r)) = Suc (next_packet m)"
      by (simp add: V_def m_def step_msgout)
    assume "skb_shared (packets m ! next_packet m)"
    then have sh: "skb_shared (packets (msgout (rpcs (xmit_clock_read W r) r))
                     ! next_packet (msgout (rpcs (xmit_clock_read W r) r)))"
      by (simp add: m_def clock_read_frame)
    from packet_shared[OF sh, of E] show "packets (msgout (rpcs V r)) = packets m"
      by (simp add: V_def m_def clock_read_frame)
    from packet_shared[OF sh, of E] show "xmit_log V = xmit_log W"
      by (simp add: V_def clock_read_frame)
  qed
  note f = xmit_run_fields[of W r E]
  have run: "next_offset m'
            = next_offset m
              + HOMA_MAX_DATA_PER_PACKET * (int (next_packet m') - int (next_packet m))"
    using f by (simp add: m_def m'_def)
  have shared: "\<forall>j. skb_shared (packets m ! j) \<longrightarrow> packets m' ! j = packets m ! j"
    using xmit_run_packets[of _ W r E] by (simp add: m_def m'_def)
  have drained: "next_offset m = 0 \<and> next_packet m = 0 \<and> length (packets m') \<le> next_packet m'
            \<and> int (length (packets m))
                 = (length_out m + HOMA_MAX_DATA_PER_PACKET - 1) div HOMA_MAX_DATA_PER_PACKET
          \<longrightarrow> next_offset m'
                 = (length_out m + HOMA_MAX_DATA_PER_PACKET - 1) div HOMA_MAX_DATA_PER_PACKET
                   * HOMA_MAX_DATA_PER_PACKET"
  proof
    assume a: "next_offset m = 0 \<and> next_packet m = 0 \<and> length (packets m') \<le> next_packet m'
            \<and> int (length (packets m))
                 = (length_out m + HOMA_MAX_DATA_PER_PACKET - 1) div HOMA_MAX_DATA_PER_PACKET"
    from f have len: "length (packets m') = length (packets m)" by (simp add: m_def m'_def)
    from a have "next_packet (msgout (rpcs W r)) \<le> length (packets (msgout (rpcs W r)))"
      by (simp add: m_def)
    from xmit_run_bound[OF this, of E] have "next_packet m' \<le> length (packets m)"
      by (simp add: m_def m'_def)
    with a len have "next_packet m' = length (packets m)" by simp
    with run a show "next_offset m'
                 = (length_out m + HOMA_MAX_DATA_PER_PACKET - 1) div HOMA_MAX_DATA_PER_PACKET
                   * HOMA_MAX_DATA_PER_PACKET"
      by simp
  qed
  from step run shared drained show ?thesis
    unfolding Let_def m_def V_def m'_def by blast
qed

text \<open>
  A message of 5000 bytes whose first buffer is shared: the first iteration sends nothing
  and leaves the packet list as it is, with \<open>next_offset = 1400\<close>; the call sends the
  packets at 1400, 2800 and 4200 and ends with \<open>next_offset = 5600\<close>, beyond the length.
\<close>

theorem xmit_data_advance_witness:
  "skb_shared (packets (msgout (rpcs shared_world 1)) ! 0)
   \<and> next_offset (msgout (rpcs shared_world 1)) = 0
   \<and> length_out (msgout (rpcs shared_world 1)) = 5000
   \<and> next_offset (msgout (rpcs (xmit_data_packet test_env (xmit_clock_read shared_world 1) 1) 1))
       = 1400
   \<and> next_packet (msgout (rpcs (xmit_data_packet test_env (xmit_clock_read shared_world 1) 1) 1))
       = 1
   \<and> packets (msgout (rpcs (xmit_data_packet test_env (xmit_clock_read shared_world 1) 1) 1))
       = packets (msgout (rpcs shared_world 1))
   \<and> xmit_log (xmit_data_packet test_env (xmit_clock_read shared_world 1) 1) = []
   \<and> map (\<lambda>s. h_offset (hdr s)) (xmit_log (homa_xmit_data test_env shared_world 1))
       = [1400, 2800, 4200]
   \<and> next_offset (msgout (rpcs (homa_xmit_data test_env shared_world 1) 1)) = 5600"
proof -
  note f = shared_world_fields
  let ?m = "msgout (rpcs shared_world 1)"
  let ?V = "xmit_data_packet test_env (xmit_clock_read shared_world 1) 1"
  let ?m' = "msgout (rpcs (homa_xmit_data test_env shared_world 1) 1)"
  have p: "next_offset ?m < granted ?m \<and> next_packet ?m < length (packets ?m)
           \<and> \<not> xmit_throttle_check test_env shared_world 1"
    using f by simp
  have sh: "skb_shared (packets ?m ! next_packet ?m)"
    unfolding f(2) by (rule f)
  have d: "next_offset ?m = 0 \<and> next_packet ?m = 0 \<and> length (packets ?m') \<le> next_packet ?m'
           \<and> int (length (packets ?m))
                = (length_out ?m + HOMA_MAX_DATA_PER_PACKET - 1) div HOMA_MAX_DATA_PER_PACKET"
    using f shared_run by (simp add: HOMA_MAX_DATA_PER_PACKET_def)
  note t = xmit_data_advance[of shared_world 1 test_env, unfolded Let_def]
  from t p sh have a2: "next_offset (msgout (rpcs ?V 1)) = next_offset ?m + HOMA_MAX_DATA_PER_PACKET"
    and a3: "next_packet (msgout (rpcs ?V 1)) = Suc (next_packet ?m)"
    and a4: "packets (msgout (rpcs ?V 1)) = packets ?m"
    and a5: "xmit_log ?V = xmit_log shared_world"
    by blast+
  from t d have n: "next_offset ?m'
      = (length_out ?m + HOMA_MAX_DATA_PER_PACKET - 1) div HOMA_MAX_DATA_PER_PACKET
        * HOMA_MAX_DATA_PER_PACKET"
    by blast
  from a2 have b2: "next_offset (msgout (rpcs ?V 1)) = 1400"
    unfolding f by (simp add: HOMA_MAX_DATA_PER_PACKET_def)
  from a3 have b3: "next_packet (msgout (rpcs ?V 1)) = 1"
    unfolding f by simp
  from a5 have b5: "xmit_log ?V = []"
    unfolding f .
  from n have b6: "next_offset ?m' = 5600"
    unfolding f by (simp add: HOMA_MAX_DATA_PER_PACKET_def)
  from shared_run
  have b7: "map (\<lambda>s. h_offset (hdr s)) (xmit_log (homa_xmit_data test_env shared_world 1))
              = [1400, 2800, 4200]"
    by blast
  from f(6) f(1) f(4) b2 b3 a4 b5 b7 b6 show ?thesis by blast
qed

text \<open>
  Claim C10, as the code has it. \<^verbatim>\<open>homa_xmit_data\<close> always returns, and it returns in one of
  two ways: with the message drained up to its grant (\<open>granted \<le> next_offset\<close>, or
  \<open>next_packet\<close> null), or from the throttle branch, with the result of
  \<^verbatim>\<open>homa_add_to_throttled\<close> at a state where the loop condition and the throttle check hold,
  and then the RPC is on the throttled list. So when the RPC is not on the throttled
  list after the call, the message is drained.
\<close>

theorem xmit_data_exit:
  "((granted (msgout (rpcs (homa_xmit_data E W r) r))
       \<le> next_offset (msgout (rpcs (homa_xmit_data E W r) r))
     \<or> length (packets (msgout (rpcs (homa_xmit_data E W r) r)))
       \<le> next_packet (msgout (rpcs (homa_xmit_data E W r) r)))
    \<or> (\<exists>V. next_offset (msgout (rpcs V r)) < granted (msgout (rpcs V r))
          \<and> next_packet (msgout (rpcs V r)) < length (packets (msgout (rpcs V r)))
          \<and> xmit_throttle_check E V r
          \<and> homa_xmit_data E W r = homa_add_to_throttled (xmit_clock_read V r) r
          \<and> r \<in> set (throttled_rpcs (homa (homa_xmit_data E W r)))))
   \<and> (r \<notin> set (throttled_rpcs (homa (homa_xmit_data E W r))) \<longrightarrow>
        granted (msgout (rpcs (homa_xmit_data E W r) r))
          \<le> next_offset (msgout (rpcs (homa_xmit_data E W r) r))
        \<or> length (packets (msgout (rpcs (homa_xmit_data E W r) r)))
          \<le> next_packet (msgout (rpcs (homa_xmit_data E W r) r)))"
proof -
  let ?d = "granted (msgout (rpcs (homa_xmit_data E W r) r))
       \<le> next_offset (msgout (rpcs (homa_xmit_data E W r) r))
     \<or> length (packets (msgout (rpcs (homa_xmit_data E W r) r)))
       \<le> next_packet (msgout (rpcs (homa_xmit_data E W r) r))"
  have t: "?d \<or> (\<exists>V. next_offset (msgout (rpcs V r)) < granted (msgout (rpcs V r))
          \<and> next_packet (msgout (rpcs V r)) < length (packets (msgout (rpcs V r)))
          \<and> xmit_throttle_check E V r
          \<and> homa_xmit_data E W r = homa_add_to_throttled (xmit_clock_read V r) r
          \<and> r \<in> set (throttled_rpcs (homa (homa_xmit_data E W r))))"
  proof (cases ?d)
    case True
    then show ?thesis by blast
  next
    case False
    with xmit_run_exit[of E W r] obtain V where
      v: "next_offset (msgout (rpcs V r)) < granted (msgout (rpcs V r))"
         "next_packet (msgout (rpcs V r)) < length (packets (msgout (rpcs V r)))"
         "xmit_throttle_check E V r"
         "homa_xmit_data E W r = homa_add_to_throttled (xmit_clock_read V r) r"
      by blast
    have "r \<in> set (throttled_rpcs (homa (homa_add_to_throttled (xmit_clock_read V r) r)))"
      by (simp add: add_set)
    then have "r \<in> set (throttled_rpcs (homa (homa_xmit_data E W r)))"
      unfolding v(4) .
    with v show ?thesis by blast
  qed
  from t have "r \<notin> set (throttled_rpcs (homa (homa_xmit_data E W r))) \<longrightarrow> ?d"
    by blast
  with t show ?thesis by blast
qed

text \<open>
  A message of 200 bytes: the call sends its packet, the RPC is not on the throttled list
  afterwards, and \<open>next_offset = 1400\<close> has passed \<open>granted = 200\<close>.
\<close>

theorem xmit_data_exit_witness:
  "1 \<notin> set (throttled_rpcs (homa (homa_xmit_data test_env (throttle_world 200) 1)))
   \<and> next_offset (msgout (rpcs (homa_xmit_data test_env (throttle_world 200) 1) 1)) = 1400
   \<and> granted (msgout (rpcs (homa_xmit_data test_env (throttle_world 200) 1) 1)) = 200
   \<and> granted (msgout (rpcs (homa_xmit_data test_env (throttle_world 200) 1) 1))
       \<le> next_offset (msgout (rpcs (homa_xmit_data test_env (throttle_world 200) 1) 1))"
proof -
  have "throttled_rpcs (homa (homa_xmit_data test_env (throttle_world 200) 1)) = []"
    using xmit_run_small[of "throttle_world 200" 1 test_env] by (simp add: small_world)
  then have n: "1 \<notin> set (throttled_rpcs (homa (homa_xmit_data test_env (throttle_world 200) 1)))"
    by simp
  from xmit_data_exit[of test_env "throttle_world 200" 1] n
  have "granted (msgout (rpcs (homa_xmit_data test_env (throttle_world 200) 1) 1))
          \<le> next_offset (msgout (rpcs (homa_xmit_data test_env (throttle_world 200) 1) 1))
        \<or> length (packets (msgout (rpcs (homa_xmit_data test_env (throttle_world 200) 1) 1)))
          \<le> next_packet (msgout (rpcs (homa_xmit_data test_env (throttle_world 200) 1) 1))"
    by blast
  with n small_run show ?thesis by simp
qed

text \<open>
  Claim C10 as the spec words it, for every return that has not added the RPC, fails
  when the RPC is on the throttled list before the call: \<^verbatim>\<open>homa_add_to_throttled\<close> returns
  at once, so the call adds nothing and sends nothing, and it returns with
  \<open>next_offset = 2800\<close> below \<open>granted = 6000\<close> and three packets left.
\<close>

theorem xmit_data_linked_counterexample:
  "throttled_rpcs (homa linked_world) = [1]
   \<and> throttled_rpcs (homa (homa_xmit_data test_env linked_world 1)) = [1]
   \<and> xmit_log (homa_xmit_data test_env linked_world 1) = xmit_log linked_world
   \<and> next_offset (msgout (rpcs (homa_xmit_data test_env linked_world 1) 1)) = 2800
   \<and> granted (msgout (rpcs (homa_xmit_data test_env linked_world 1) 1)) = 6000
   \<and> next_packet (msgout (rpcs (homa_xmit_data test_env linked_world 1) 1)) = 2
   \<and> length (packets (msgout (rpcs (homa_xmit_data test_env linked_world 1) 1))) = 5"
  by (simp add: linked_world_def throttle_world_2_def throttle_world_def test_defs
        homa_xmit_data.simps)

subsection \<open>Retransmission\<close>

lemma resend_packets_rpcs:
  "rpcs (snd (resend_packets E r start end priority skbs W)) = rpcs W"
proof (induction skbs arbitrary: W)
  case Nil
  show ?case by simp
next
  case (Cons skb rest)
  show ?case
    by (simp add: Let_def case_prod_beta Cons sub_rpcs)
qed


text \<open>
  Claim C7. For every state, RPC, range and priority, \<^verbatim>\<open>homa_resend_data\<close> leaves \<open>next_offset\<close>
  and \<open>next_packet\<close> of every RPC as they were.
\<close>

theorem resend_keeps_send_pointer:
  "next_offset (msgout (rpcs (homa_resend_data E W r start end priority) a))
     = next_offset (msgout (rpcs W a))
   \<and> next_packet (msgout (rpcs (homa_resend_data E W r start end priority) a))
     = next_packet (msgout (rpcs W a))"
  by (simp add: homa_resend_data_def case_prod_beta resend_packets_rpcs)

theorem resend_keeps_send_pointer_witness:
  "next_offset (msgout (rpcs (homa_resend_data test_env (test_world test_homa [test_rpc 10000])
       1 1000 5000 5) 1)) = 0
   \<and> next_packet (msgout (rpcs (homa_resend_data test_env (test_world test_homa [test_rpc 10000])
       1 1000 5000 5) 1)) = 0"
  using resend_keeps_send_pointer[of test_env "test_world test_homa [test_rpc 10000]" 1 1000 5000 5 1]
  by (simp add: test_world_def test_rpc_fields)

lemma intervals_intersect_iff:
  "intervals_intersect a b c d \<longleftrightarrow> (\<exists>x. a \<le> x \<and> x < b \<and> c \<le> x \<and> x < d)"
proof
  assume "intervals_intersect a b c d"
  then have "a \<le> max a c \<and> max a c < b \<and> c \<le> max a c \<and> max a c < d"
    by (simp add: intervals_intersect_def)
  then show "\<exists>x. a \<le> x \<and> x < b \<and> c \<le> x \<and> x < d" by blast
next
  assume "\<exists>x. a \<le> x \<and> x < b \<and> c \<le> x \<and> x < d"
  then show "intervals_intersect a b c d"
    by (auto simp: intervals_intersect_def)
qed

lemma resend_packets_walk:
  assumes "start < end"
  shows "\<exists>new. xmit_log (snd (resend_packets E r start end priority skbs W)) = xmit_log W @ new
     \<and> list_all2
         (\<lambda>s q. h_offset (hdr s) = h_offset (hdr q) \<and> h_retransmit (hdr s) = 1
                \<and> vlan_tci s = tci_entry priority)
         new
         (filter (\<lambda>q. \<not> skb_shared q \<and> start < h_offset (hdr q) + HOMA_MAX_DATA_PER_PACKET)
            (takeWhile (\<lambda>q. h_offset (hdr q) < end) skbs))
     \<and> length (fst (resend_packets E r start end priority skbs W)) = length skbs
     \<and> drop (length (takeWhile (\<lambda>q. h_offset (hdr q) < end) skbs))
          (fst (resend_packets E r start end priority skbs W))
        = dropWhile (\<lambda>q. h_offset (hdr q) < end) skbs"
proof (induction skbs arbitrary: W)
  case Nil
  show ?case by simp
next
  case (Cons skb rest)
  let ?R = "\<lambda>s q. h_offset (hdr s) = h_offset (hdr q) \<and> h_retransmit (hdr s) = 1
                \<and> vlan_tci s = tci_entry priority"
  let ?P = "\<lambda>q. \<not> skb_shared q \<and> start < h_offset (hdr q) + HOMA_MAX_DATA_PER_PACKET"
  let ?off = "h_offset (hdr skb)"
  show ?case
  proof (cases "?off + HOMA_MAX_DATA_PER_PACKET \<le> start")
    case True
    with assms have lt: "?off < end" by (simp add: HOMA_MAX_DATA_PER_PACKET_def)
    from Cons[of W] True lt show ?thesis
      by (simp add: Let_def case_prod_beta)
  next
    case f1: False
    show ?thesis
    proof (cases "?off \<ge> end")
      case True
      with f1 show ?thesis by (simp add: Let_def)
    next
      case f2: False
      show ?thesis
      proof (cases "skb_shared skb")
        case True
        from Cons[of W] f1 f2 True show ?thesis
          by (simp add: Let_def case_prod_beta)
      next
        case f3: False
        let ?skb = "set_priority (skb\<lparr>hdr := (hdr skb)\<lparr>h_retransmit := 1\<rparr>\<rparr>) priority"
        let ?X = "homa_xmit_data_sub E W ?skb r"
        let ?W1 = "(snd ?X)\<lparr>metrics := (metrics (snd ?X))\<lparr>resent_packets :=
                          Suc (resent_packets (metrics (snd ?X)))\<rparr>\<rparr>"
        from sub_log[of E W ?skb r] obtain s where
          s1: "xmit_log (snd ?X) = xmit_log W @ [s]" and
          s2: "?R s skb"
          by (auto simp: set_priority_def)
        from Cons[of ?W1] obtain new where
          n1: "xmit_log (snd (resend_packets E r start end priority rest ?W1)) = xmit_log ?W1 @ new"
          and n2: "list_all2 ?R new (filter ?P (takeWhile (\<lambda>q. h_offset (hdr q) < end) rest))"
          and n3: "length (fst (resend_packets E r start end priority rest ?W1)) = length rest"
          and n4: "drop (length (takeWhile (\<lambda>q. h_offset (hdr q) < end) rest))
              (fst (resend_packets E r start end priority rest ?W1))
            = dropWhile (\<lambda>q. h_offset (hdr q) < end) rest"
          by blast
        have e: "resend_packets E r start end priority (skb # rest) W
           = (fst ?X # fst (resend_packets E r start end priority rest ?W1),
              snd (resend_packets E r start end priority rest ?W1))"
          using f1 f2 f3 by (simp add: Let_def case_prod_beta)
        have "xmit_log (snd (resend_packets E r start end priority (skb # rest) W))
                = xmit_log W @ (s # new)"
          unfolding e using n1 s1 by simp
        moreover have "list_all2 ?R (s # new)
            (filter ?P (takeWhile (\<lambda>q. h_offset (hdr q) < end) (skb # rest)))"
          using f1 f2 f3 n2 s2 by simp
        moreover have "length (fst (resend_packets E r start end priority (skb # rest) W))
                = length (skb # rest)"
          unfolding e using n3 by simp
        moreover have "drop (length (takeWhile (\<lambda>q. h_offset (hdr q) < end) (skb # rest)))
              (fst (resend_packets E r start end priority (skb # rest) W))
            = dropWhile (\<lambda>q. h_offset (hdr q) < end) (skb # rest)"
          unfolding e using f2 n4 by simp
        ultimately show ?thesis by blast
      qed
    qed
  qed
qed

lemma takeWhile_sorted_filter:
  "sorted (map f xs) \<Longrightarrow> takeWhile (\<lambda>x. f x < (e::int)) xs = filter (\<lambda>x. f x < e) xs"
proof (induction xs)
  case Nil
  show ?case by simp
next
  case (Cons x xs)
  show ?case
  proof (cases "f x < e")
    case True
    with Cons show ?thesis by simp
  next
    case False
    with Cons.prems have "\<forall>y \<in> set xs. \<not> f y < e" by auto
    then have "filter (\<lambda>x. f x < e) xs = []" by (simp add: filter_empty_conv)
    with False show ?thesis by simp
  qed
qed

lemma aligned_sorted:
  assumes "\<forall>i < length ps. h_offset (hdr (ps ! i)) = int i * HOMA_MAX_DATA_PER_PACKET"
  shows "sorted (map (\<lambda>q. h_offset (hdr q)) ps)"
  unfolding sorted_iff_nth_mono
  using assms by (auto simp: HOMA_MAX_DATA_PER_PACKET_def)

lemma resend_data_result:
  "xmit_log (homa_resend_data E W r start end priority)
     = xmit_log (snd (resend_packets E r start end priority (packets (msgout (rpcs W r))) W))"
  "packets (msgout (rpcs (homa_resend_data E W r start end priority) r))
     = fst (resend_packets E r start end priority (packets (msgout (rpcs W r))) W)"
  by (simp_all add: homa_resend_data_def case_prod_beta)

text \<open>The message of 10000 bytes of the unit test of \<^verbatim>\<open>homa_resend_data\<close>.\<close>

lemma test_rpc_packets:
  "packets (msgout (test_rpc 10000))
     = [test_packet 10000 0 1400, test_packet 10000 1400 1400, test_packet 10000 2800 1400,
        test_packet 10000 4200 1400, test_packet 10000 5600 1400, test_packet 10000 7000 1400,
        test_packet 10000 8400 1400, test_packet 10000 9800 200]"
  by (simp add: test_packet_def test_defs)

lemma resend_world_packets:
  "packets (msgout (rpcs resend_world 1)) = packets (msgout (test_rpc 10000))"
  by (simp add: resend_world_def test_world_def)

lemma resend_world_log: "xmit_log resend_world = []"
  by (simp add: resend_world_def test_world_def)

lemma resend_world_aligned:
  "\<forall>i < length (packets (msgout (rpcs resend_world 1))).
      h_offset (hdr (packets (msgout (rpcs resend_world 1)) ! i))
        = int i * HOMA_MAX_DATA_PER_PACKET"
  using test_rpc_aligned(2)[of 10000] by (simp add: resend_world_def test_world_def)

lemma resend_run_empty:
  "map (\<lambda>s. h_offset (hdr s)) (xmit_log (homa_resend_data test_env resend_world 1 5 5 5)) = [0]"
  by (simp add: homa_resend_data_def test_rpc_packets resend_world_def
        test_packet_def test_env_def test_peer_def test_homa_def
        test_world_def HOMA_MAX_DATA_PER_PACKET_def
        skb_transport_offset_def skb_pull_def skb_get_def kfree_skb_def skb_shared_def
        set_priority_def homa_xmit_data_sub_def homa_update_idle_time_def c_div_numeral c_int_numeral
        Let_def test_rpc_fields)

text \<open>
  Claim C6, as the code has it. For a range with \<open>start < end\<close>, \<^verbatim>\<open>homa_resend_data\<close> hands to
  IP, in list order, exactly the packets that are not shared and have \<open>start < offset +
  HOMA_MAX_DATA_PER_PACKET\<close> among those before the first packet with \<open>offset \<ge> end\<close>, each
  with \<open>retransmit = 1\<close> and the tag of the caller's priority; the walk ends at that first
  packet, which it leaves untouched with everything behind it. For an initialised
  message (the \<open>i\<close>-th offset is \<open>i * HOMA_MAX_DATA_PER_PACKET\<close>) these are exactly the
  packets that are not shared and whose interval
  \<open>[offset, offset + HOMA_MAX_DATA_PER_PACKET)\<close> intersects \<open>[start, end)\<close>.
\<close>

theorem resend_data_emits:
  "start < end \<longrightarrow>
     (let ps = packets (msgout (rpcs W r));
          W' = homa_resend_data E W r start end priority;
          ps' = packets (msgout (rpcs W' r))
      in (\<exists>new. xmit_log W' = xmit_log W @ new
            \<and> list_all2
                (\<lambda>s q. h_offset (hdr s) = h_offset (hdr q) \<and> h_retransmit (hdr s) = 1
                       \<and> vlan_tci s = tci_entry priority)
                new
                (filter (\<lambda>q. \<not> skb_shared q
                              \<and> start < h_offset (hdr q) + HOMA_MAX_DATA_PER_PACKET)
                   (takeWhile (\<lambda>q. h_offset (hdr q) < end) ps))
            \<and> ((\<forall>i < length ps. h_offset (hdr (ps ! i)) = int i * HOMA_MAX_DATA_PER_PACKET)
                 \<longrightarrow> list_all2
                       (\<lambda>s q. h_offset (hdr s) = h_offset (hdr q) \<and> h_retransmit (hdr s) = 1
                              \<and> vlan_tci s = tci_entry priority)
                       new
                       (filter (\<lambda>q. \<not> skb_shared q
                                     \<and> intervals_intersect (h_offset (hdr q))
                                         (h_offset (hdr q) + HOMA_MAX_DATA_PER_PACKET) start end)
                          ps)))
         \<and> length ps' = length ps
         \<and> drop (length (takeWhile (\<lambda>q. h_offset (hdr q) < end) ps)) ps'
             = dropWhile (\<lambda>q. h_offset (hdr q) < end) ps)"
proof
  assume se: "start < end"
  define ps where "ps = packets (msgout (rpcs W r))"
  let ?R = "\<lambda>s q. h_offset (hdr s) = h_offset (hdr q) \<and> h_retransmit (hdr s) = 1
                       \<and> vlan_tci s = tci_entry priority"
  from resend_packets_walk[OF se, of E r priority ps W] obtain new where
    n1: "xmit_log (snd (resend_packets E r start end priority ps W)) = xmit_log W @ new" and
    n2: "list_all2 ?R new
           (filter (\<lambda>q. \<not> skb_shared q \<and> start < h_offset (hdr q) + HOMA_MAX_DATA_PER_PACKET)
              (takeWhile (\<lambda>q. h_offset (hdr q) < end) ps))" and
    n3: "length (fst (resend_packets E r start end priority ps W)) = length ps" and
    n4: "drop (length (takeWhile (\<lambda>q. h_offset (hdr q) < end) ps))
          (fst (resend_packets E r start end priority ps W))
        = dropWhile (\<lambda>q. h_offset (hdr q) < end) ps"
    by blast
  have n5: "(\<forall>i < length ps. h_offset (hdr (ps ! i)) = int i * HOMA_MAX_DATA_PER_PACKET)
      \<longrightarrow> list_all2 ?R new
            (filter (\<lambda>q. \<not> skb_shared q
                          \<and> intervals_intersect (h_offset (hdr q))
                              (h_offset (hdr q) + HOMA_MAX_DATA_PER_PACKET) start end) ps)"
  proof
    assume al: "\<forall>i < length ps. h_offset (hdr (ps ! i)) = int i * HOMA_MAX_DATA_PER_PACKET"
    then have "sorted (map (\<lambda>q. h_offset (hdr q)) ps)" by (rule aligned_sorted)
    then have tw: "takeWhile (\<lambda>q. h_offset (hdr q) < end) ps
                = filter (\<lambda>q. h_offset (hdr q) < end) ps"
      by (rule takeWhile_sorted_filter)
    have "filter (\<lambda>q. \<not> skb_shared q \<and> start < h_offset (hdr q) + HOMA_MAX_DATA_PER_PACKET)
              (takeWhile (\<lambda>q. h_offset (hdr q) < end) ps)
          = filter (\<lambda>q. \<not> skb_shared q
                          \<and> intervals_intersect (h_offset (hdr q))
                              (h_offset (hdr q) + HOMA_MAX_DATA_PER_PACKET) start end) ps"
      unfolding tw using se
      by (auto simp: intervals_intersect_def HOMA_MAX_DATA_PER_PACKET_def intro!: filter_cong)
    with n2 show "list_all2 ?R new
            (filter (\<lambda>q. \<not> skb_shared q
                          \<and> intervals_intersect (h_offset (hdr q))
                              (h_offset (hdr q) + HOMA_MAX_DATA_PER_PACKET) start end) ps)"
      by simp
  qed
  from n1 n2 n3 n4 n5 show "let ps = packets (msgout (rpcs W r));
          W' = homa_resend_data E W r start end priority;
          ps' = packets (msgout (rpcs W' r))
      in (\<exists>new. xmit_log W' = xmit_log W @ new
            \<and> list_all2 ?R new
                (filter (\<lambda>q. \<not> skb_shared q
                              \<and> start < h_offset (hdr q) + HOMA_MAX_DATA_PER_PACKET)
                   (takeWhile (\<lambda>q. h_offset (hdr q) < end) ps))
            \<and> ((\<forall>i < length ps. h_offset (hdr (ps ! i)) = int i * HOMA_MAX_DATA_PER_PACKET)
                 \<longrightarrow> list_all2 ?R new
                       (filter (\<lambda>q. \<not> skb_shared q
                                     \<and> intervals_intersect (h_offset (hdr q))
                                         (h_offset (hdr q) + HOMA_MAX_DATA_PER_PACKET) start end)
                          ps)))
         \<and> length ps' = length ps
         \<and> drop (length (takeWhile (\<lambda>q. h_offset (hdr q) < end) ps)) ps'
             = dropWhile (\<lambda>q. h_offset (hdr q) < end) ps"
    unfolding Let_def resend_data_result ps_def by blast
qed

text \<open>
  The message of 10000 bytes: the range \<open>[1000, 5000)\<close> with priority 5 sends the packets at
  0, 1400, 2800 and 4200 and leaves the packets from 5600 on untouched; the range
  \<open>[1400, 2800)\<close> with priority 7 sends the packet at 1400 alone.
\<close>

theorem resend_data_emits_witness:
  "(1000::int) < 5000
   \<and> map (\<lambda>s. (h_offset (hdr s), h_retransmit (hdr s), vlan_tci s))
        (xmit_log (homa_resend_data test_env resend_world 1 1000 5000 5))
       = [(0, 1, tci_entry 5), (1400, 1, tci_entry 5), (2800, 1, tci_entry 5),
          (4200, 1, tci_entry 5)]
   \<and> drop 4 (packets (msgout (rpcs (homa_resend_data test_env resend_world 1 1000 5000 5) 1)))
       = [test_packet 10000 5600 1400, test_packet 10000 7000 1400,
          test_packet 10000 8400 1400, test_packet 10000 9800 200]
   \<and> map (\<lambda>s. (h_offset (hdr s), h_retransmit (hdr s), vlan_tci s))
        (xmit_log (homa_resend_data test_env resend_world 1 1400 2800 7))
       = [(1400, 1, tci_entry 7)]"
proof -
  have a: "map (\<lambda>s. (h_offset (hdr s), h_retransmit (hdr s), vlan_tci s))
        (xmit_log (homa_resend_data test_env resend_world 1 1000 5000 5))
       = [(0, 1, tci_entry 5), (1400, 1, tci_entry 5), (2800, 1, tci_entry 5),
          (4200, 1, tci_entry 5)]
   \<and> drop 4 (packets (msgout (rpcs (homa_resend_data test_env resend_world 1 1000 5000 5) 1)))
       = [test_packet 10000 5600 1400, test_packet 10000 7000 1400,
          test_packet 10000 8400 1400, test_packet 10000 9800 200]"
    using resend_world_aligned resend_data_emits[of 1000 5000 resend_world 1 test_env 5]
    unfolding Let_def resend_world_packets test_rpc_packets resend_world_log
    by (auto simp: list_all2_Cons2 test_packet_def skb_shared_def HOMA_MAX_DATA_PER_PACKET_def
          intervals_intersect_def eval_nat_numeral)
  have b: "map (\<lambda>s. (h_offset (hdr s), h_retransmit (hdr s), vlan_tci s))
        (xmit_log (homa_resend_data test_env resend_world 1 1400 2800 7))
       = [(1400, 1, tci_entry 7)]"
    using resend_world_aligned resend_data_emits[of 1400 2800 resend_world 1 test_env 7]
    unfolding Let_def resend_world_packets test_rpc_packets resend_world_log
    by (auto simp: list_all2_Cons2 test_packet_def skb_shared_def HOMA_MAX_DATA_PER_PACKET_def
          intervals_intersect_def eval_nat_numeral)
  from a b show ?thesis by simp
qed

text \<open>
  Claim C6 as the spec words it, for every range, fails for an empty one: no interval
  intersects \<open>[5, 5)\<close>, yet \<^verbatim>\<open>homa_resend_data\<close> sends the packet at offset 0, since neither
  \<open>offset + HOMA_MAX_DATA_PER_PACKET \<le> start\<close> nor \<open>offset \<ge> end\<close> holds for it.
\<close>

theorem resend_data_empty_range_counterexample:
  "map (\<lambda>s. h_offset (hdr s)) (xmit_log (homa_resend_data test_env resend_world 1 5 5 5)) = [0]
   \<and> xmit_log resend_world = []
   \<and> filter (\<lambda>q. \<not> skb_shared q
                   \<and> intervals_intersect (h_offset (hdr q))
                       (h_offset (hdr q) + HOMA_MAX_DATA_PER_PACKET) 5 5)
        (packets (msgout (rpcs resend_world 1))) = []"
proof -
  have "filter (\<lambda>q. \<not> skb_shared q
                   \<and> intervals_intersect (h_offset (hdr q))
                       (h_offset (hdr q) + HOMA_MAX_DATA_PER_PACKET) 5 5)
        (packets (msgout (rpcs resend_world 1))) = []"
    unfolding resend_world_packets test_rpc_packets
    by (simp add: intervals_intersect_def test_packet_def HOMA_MAX_DATA_PER_PACKET_def)
  with resend_run_empty resend_world_log show ?thesis by blast
qed

end
